theory Spec2Isabelle
  imports Main "HOL-Library.Word"
begin

unbundle bit_operations_syntax

section \<open>Data: bytes, strings and errors\<close>

text \<open>
  A Python \<open>bytes\<close> object is a list of 8-bit words. A Python \<open>str\<close> is a list of
  Unicode code points; every element of a real \<open>str\<close> is below \<open>0x110000\<close> (lone
  surrogates included, which Python allows inside a \<open>str\<close>).
\<close>

type_synonym byte = "8 word"
type_synonym bytes = "byte list"
type_synonym pystr = "nat list"

definition is_str :: "pystr \<Rightarrow> bool" where
  "is_str s = list_all (\<lambda>c. c < 0x110000) s"

text \<open>
  The exceptions that the code of \<open>callbacks.py\<close> raises or lets through.
  \<open>ValueError\<close> carries the byte count that its message reports; \<open>BinasciiError\<close> is
  \<open>binascii.Error\<close>; \<open>KeyError\<close> is a dictionary lookup that finds no entry;
  \<open>HookError\<close> stands for whatever a hook raises.
\<close>

datatype error =
    TamperedMessageError
  | ValueError nat
  | UnicodeEncodeError
  | UnicodeDecodeError
  | BinasciiError
  | KeyError string
  | HookError string

text \<open>Sequencing of a computation that may raise: the first exception wins.\<close>

definition bind :: "error + 'a \<Rightarrow> ('a \<Rightarrow> error + 'b) \<Rightarrow> error + 'b" where
  "bind m f = (case m of Inl e \<Rightarrow> Inl e | Inr x \<Rightarrow> f x)"

section \<open>\<open>str.encode("utf-8")\<close> and \<open>bytes.decode("utf-8")\<close>\<close>

text \<open>
  The strict UTF-8 codec: encoding refuses the surrogates \<open>U+D800..U+DFFF\<close>, decoding
  accepts exactly the well-formed byte sequences (no overlong forms, no surrogates,
  nothing above \<open>U+10FFFF\<close>).
\<close>

definition utf8_char :: "nat \<Rightarrow> error + bytes" where
  "utf8_char c =
     (if c < 0x80 then Inr [of_nat c]
      else if c < 0x800 then Inr [of_nat (0xC0 + c div 64), of_nat (0x80 + c mod 64)]
      else if 0xD800 \<le> c \<and> c < 0xE000 then Inl UnicodeEncodeError
      else if c < 0x10000 then
        Inr [of_nat (0xE0 + c div 4096), of_nat (0x80 + c div 64 mod 64),
             of_nat (0x80 + c mod 64)]
      else
        Inr [of_nat (0xF0 + c div 262144), of_nat (0x80 + c div 4096 mod 64),
             of_nat (0x80 + c div 64 mod 64), of_nat (0x80 + c mod 64)])"

fun encode_utf8 :: "pystr \<Rightarrow> error + bytes" where
  "encode_utf8 [] = Inr []"
| "encode_utf8 (c # cs) =
     bind (utf8_char c) (\<lambda>bs. bind (encode_utf8 cs) (\<lambda>rest. Inr (bs @ rest)))"

definition cont :: "byte \<Rightarrow> bool" where
  "cont b = (0x80 \<le> unat b \<and> unat b \<le> 0xBF)"

definition cont_in :: "nat \<Rightarrow> nat \<Rightarrow> byte \<Rightarrow> bool" where
  "cont_in lo hi b = (lo \<le> unat b \<and> unat b \<le> hi)"

definition cpoint :: "error + pystr \<Rightarrow> nat \<Rightarrow> error + pystr" where
  "cpoint rest c = bind rest (\<lambda>cs. Inr (c # cs))"

fun decode_utf8 :: "bytes \<Rightarrow> error + pystr" where
  "decode_utf8 [] = Inr []"
| "decode_utf8 (b0 # bs) =
     (if unat b0 < 0x80 then cpoint (decode_utf8 bs) (unat b0)
      else if 0xC2 \<le> unat b0 \<and> unat b0 \<le> 0xDF then
        (case bs of
           b1 # r \<Rightarrow>
             if cont b1
             then cpoint (decode_utf8 r) ((unat b0 - 0xC0) * 64 + (unat b1 - 0x80))
             else Inl UnicodeDecodeError
         | _ \<Rightarrow> Inl UnicodeDecodeError)
      else if 0xE0 \<le> unat b0 \<and> unat b0 \<le> 0xEF then
        (case bs of
           b1 # b2 # r \<Rightarrow>
             if cont_in (if unat b0 = 0xE0 then 0xA0 else 0x80)
                        (if unat b0 = 0xED then 0x9F else 0xBF) b1 \<and> cont b2
             then cpoint (decode_utf8 r)
                    ((unat b0 - 0xE0) * 4096 + (unat b1 - 0x80) * 64 + (unat b2 - 0x80))
             else Inl UnicodeDecodeError
         | _ \<Rightarrow> Inl UnicodeDecodeError)
      else if 0xF0 \<le> unat b0 \<and> unat b0 \<le> 0xF4 then
        (case bs of
           b1 # b2 # b3 # r \<Rightarrow>
             if cont_in (if unat b0 = 0xF0 then 0x90 else 0x80)
                        (if unat b0 = 0xF4 then 0x8F else 0xBF) b1 \<and> cont b2 \<and> cont b3
             then cpoint (decode_utf8 r)
                    ((unat b0 - 0xF0) * 262144 + (unat b1 - 0x80) * 4096
                     + (unat b2 - 0x80) * 64 + (unat b3 - 0x80))
             else Inl UnicodeDecodeError
         | _ \<Rightarrow> Inl UnicodeDecodeError)
      else Inl UnicodeDecodeError)"

section \<open>\<open>base64.b64encode\<close> and \<open>base64.b64decode\<close>\<close>

definition BASE64_PAD :: byte where
  "BASE64_PAD = 0x3D"

text \<open>
  The alphabet \<open>A-Z a-z 0-9 + /\<close> as a table from six-bit values to ASCII codes, and
  its inverse, which knows no other byte.
\<close>

definition table_b2a_base64 :: "nat \<Rightarrow> byte" where
  "table_b2a_base64 n =
     (if n < 26 then of_nat (0x41 + n)
      else if n < 52 then of_nat (0x61 + (n - 26))
      else if n < 62 then of_nat (0x30 + (n - 52))
      else if n = 62 then 0x2B
      else 0x2F)"

definition table_a2b_base64 :: "byte \<Rightarrow> nat option" where
  "table_a2b_base64 c =
     (let n = unat c in
      if 0x41 \<le> n \<and> n \<le> 0x5A then Some (n - 0x41)
      else if 0x61 \<le> n \<and> n \<le> 0x7A then Some (n - 0x61 + 26)
      else if 0x30 \<le> n \<and> n \<le> 0x39 then Some (n - 0x30 + 52)
      else if n = 0x2B then Some 62
      else if n = 0x2F then Some 63
      else None)"

text \<open>
  \<open>b64encode\<close>: three bytes become four characters of the alphabet; a last group
  of one or two bytes is padded with \<open>=\<close>. Shifts and masks are written as division
  and remainder by powers of two.
\<close>

fun b64encode :: "bytes \<Rightarrow> bytes" where
  "b64encode [] = []"
| "b64encode [a] =
     [table_b2a_base64 (unat a div 4), table_b2a_base64 (unat a mod 4 * 16),
      BASE64_PAD, BASE64_PAD]"
| "b64encode [a, b] =
     [table_b2a_base64 (unat a div 4),
      table_b2a_base64 (unat a mod 4 * 16 + unat b div 16),
      table_b2a_base64 (unat b mod 16 * 4), BASE64_PAD]"
| "b64encode (a # b # c # r) =
     [table_b2a_base64 (unat a div 4),
      table_b2a_base64 (unat a mod 4 * 16 + unat b div 16),
      table_b2a_base64 (unat b mod 16 * 4 + unat c div 64),
      table_b2a_base64 (unat c mod 64)] @ b64encode r"

text \<open>
  \<open>b64decode\<close> with \<open>validate=False\<close>, as the source calls it: the loop of
  \<open>binascii.a2b_base64\<close>. Bytes outside the alphabet are skipped; \<open>quad_pos\<close> is the
  position inside the current group of four, \<open>leftchar\<close> the bits not yet written,
  \<open>pads\<close> the run of \<open>=\<close> seen. A complete pad sequence ends the input; leftover
  characters at the end raise \<open>binascii.Error\<close>. A byte written to the output keeps
  its low eight bits, which is what \<open>of_nat\<close> into \<open>8 word\<close> does.
\<close>

definition emit :: "byte \<Rightarrow> error + bytes \<Rightarrow> error + bytes" where
  "emit b rest = bind rest (\<lambda>bs. Inr (b # bs))"

fun a2b_base64 :: "nat \<Rightarrow> nat \<Rightarrow> nat \<Rightarrow> bytes \<Rightarrow> error + bytes" where
  "a2b_base64 quad_pos leftchar pads [] =
     (if quad_pos \<noteq> 0 then Inl BinasciiError else Inr [])"
| "a2b_base64 quad_pos leftchar pads (c # cs) =
     (if c = BASE64_PAD then
        (if quad_pos \<ge> 2 \<and> quad_pos + (pads + 1) \<ge> 4 then Inr []
         else a2b_base64 quad_pos leftchar (if quad_pos \<ge> 2 then pads + 1 else pads) cs)
      else
        (case table_a2b_base64 c of
           None \<Rightarrow> a2b_base64 quad_pos leftchar pads cs
         | Some v \<Rightarrow>
             if quad_pos = 0 then a2b_base64 1 v 0 cs
             else if quad_pos = 1 then
               emit (of_nat (leftchar * 4 + v div 16)) (a2b_base64 2 (v mod 16) 0 cs)
             else if quad_pos = 2 then
               emit (of_nat (leftchar * 16 + v div 4)) (a2b_base64 3 (v mod 4) 0 cs)
             else
               emit (of_nat (leftchar * 64 + v)) (a2b_base64 0 0 0 cs)))"

definition b64decode :: "bytes \<Rightarrow> error + bytes" where
  "b64decode s = a2b_base64 0 0 0 s"


section \<open>The token codec\<close>

text \<open>
  A chat is known to the codec by its numeric identifier \<open>chat.id\<close> only, which
  \<open>str\<close> prints in decimal, with a minus sign for a negative number.
\<close>

record Chat =
  chat_id :: int

fun str_nat :: "nat \<Rightarrow> bytes" where
  "str_nat n =
     (if n < 10 then [of_nat (0x30 + n)]
      else str_nat (n div 10) @ [of_nat (0x30 + n mod 10)])"

declare str_nat.simps [simp del]

definition str_int :: "int \<Rightarrow> bytes" where
  "str_int i = (if i < 0 then 0x2D # str_nat (nat (- i)) else str_nat (nat i))"

text \<open>
  \<open>crypto.get_hmac\<close> and the digest \<open>DIGEST = hashlib.md5\<close> are not part of
  \<open>callbacks.py\<close>: the functions below take them as parameters \<open>get_hmac\<close> (from the
  bot, which holds the secret key, and a message to a digest) and \<open>DIGEST\<close> (from a
  message to its digest). Theorems that need the digests' sizes (16 bytes each) say so.
\<close>

text \<open>
  Modelled from the spec: \<open>crypto.compare\<close>, the constant-time comparison of two byte
  strings, which is true exactly when they are equal.
\<close>

definition compare :: "bytes \<Rightarrow> bytes \<Rightarrow> bool" where
  "compare x y = (x = y)"

definition get_signature ::
  "('bot \<Rightarrow> bytes \<Rightarrow> bytes) \<Rightarrow> 'bot \<Rightarrow> Chat \<Rightarrow> bytes \<Rightarrow> bytes \<Rightarrow> bytes" where
  "get_signature get_hmac bt chat name data =
     (let chat_id = str_int (chat_id chat)
      in get_hmac bt (name @ [0] @ chat_id @ [0] @ data))"

definition hashed_callback_name :: "(bytes \<Rightarrow> bytes) \<Rightarrow> pystr \<Rightarrow> error + bytes" where
  "hashed_callback_name DIGEST name =
     bind (encode_utf8 name) (\<lambda>name_bytes. Inr (take 8 (DIGEST name_bytes)))"

definition get_callback_data ::
  "(bytes \<Rightarrow> bytes) \<Rightarrow> ('bot \<Rightarrow> bytes \<Rightarrow> bytes) \<Rightarrow> 'bot \<Rightarrow> Chat \<Rightarrow> pystr \<Rightarrow> pystr option
     \<Rightarrow> error + pystr" where
  "get_callback_data DIGEST get_hmac bt chat name data =
     bind (hashed_callback_name DIGEST name) (\<lambda>name.
     bind (encode_utf8 (case data of None \<Rightarrow> [] | Some d \<Rightarrow> d)) (\<lambda>data.
       if length data > 32 then Inl (ValueError (length data))
       else
         let signature = get_signature get_hmac bt chat name data
         in decode_utf8 (b64encode (signature @ name) @ data)))"

definition parse_callback_data ::
  "('bot \<Rightarrow> bytes \<Rightarrow> bytes) \<Rightarrow> 'bot \<Rightarrow> Chat \<Rightarrow> pystr \<Rightarrow> error + (bytes \<times> pystr option)" where
  "parse_callback_data get_hmac bt chat raw =
     bind (encode_utf8 raw) (\<lambda>raw.
       if length raw < 32 then Inl TamperedMessageError
       else
         (case b64decode (take 32 raw) of
            Inl _ \<Rightarrow> Inl TamperedMessageError
          | Inr prelude \<Rightarrow>
              let signature = take 16 prelude;
                  name = drop 16 prelude;
                  data = drop 32 raw;
                  correct = get_signature get_hmac bt chat name data
              in if \<not> compare correct signature then Inl TamperedMessageError
                 else if data \<noteq> [] then
                   bind (decode_utf8 data) (\<lambda>d. Inr (name, Some d))
                 else Inr (name, None)))"


section \<open>The inline keyboard\<close>

text \<open>
  A button is a dictionary from field names to values, kept in insertion order. A value
  is a string, or the closure \<open>generate_callback_data\<close> that \<open>ButtonsRow.callback\<close>
  builds: \<open>Callable callback data\<close> holds the two variables the closure captures.
\<close>

datatype field = Static pystr | Callable pystr "pystr option"

type_synonym item = "(string \<times> field) list"

record ButtonsRow =
  content :: "item list"

definition ButtonsRow_init :: ButtonsRow where
  "ButtonsRow_init = \<lparr>content = []\<rparr>"

definition url :: "ButtonsRow \<Rightarrow> pystr \<Rightarrow> pystr \<Rightarrow> ButtonsRow" where
  "url row label target =
     row\<lparr>content := content row @ [[(''text'', Static label), (''url'', Static target)]]\<rparr>"

definition callback :: "ButtonsRow \<Rightarrow> pystr \<Rightarrow> pystr \<Rightarrow> pystr option \<Rightarrow> ButtonsRow" where
  "callback row label cb data =
     row\<lparr>content := content row @
        [[(''text'', Static label), (''callback_data'', Callable cb data)]]\<rparr>"

definition switch_inline_query :: "ButtonsRow \<Rightarrow> pystr \<Rightarrow> pystr \<Rightarrow> bool \<Rightarrow> ButtonsRow" where
  "switch_inline_query row label query current_chat =
     (if current_chat
      then row\<lparr>content := content row @
             [[(''text'', Static label), (''switch_inline_query_current_chat'', Static query)]]\<rparr>
      else row\<lparr>content := content row @
             [[(''text'', Static label), (''switch_inline_query'', Static query)]]\<rparr>)"

text \<open>
  What \<open>ctx()\<close> gives the closure when the keyboard is serialized: the name of the
  component, the bot and the chat the message goes to.
\<close>

record 'bot Ctx =
  component_name :: pystr
  ctx_bot :: 'bot
  ctx_chat :: Chat

definition generate_callback_data ::
  "(bytes \<Rightarrow> bytes) \<Rightarrow> ('bot \<Rightarrow> bytes \<Rightarrow> bytes) \<Rightarrow> 'bot Ctx \<Rightarrow> pystr \<Rightarrow> pystr option
     \<Rightarrow> error + pystr" where
  "generate_callback_data DIGEST get_hmac c cb data =
     (let name = component_name c @ [0x3A] @ cb
      in get_callback_data DIGEST get_hmac (ctx_bot c) (ctx_chat c) name data)"

fun resolve_item ::
  "(bytes \<Rightarrow> bytes) \<Rightarrow> ('bot \<Rightarrow> bytes \<Rightarrow> bytes) \<Rightarrow> 'bot Ctx \<Rightarrow> item
     \<Rightarrow> error + (string \<times> pystr) list" where
  "resolve_item DIGEST get_hmac c [] = Inr []"
| "resolve_item DIGEST get_hmac c ((key, Static v) # kvs) =
     bind (resolve_item DIGEST get_hmac c kvs) (\<lambda>new. Inr ((key, v) # new))"
| "resolve_item DIGEST get_hmac c ((key, Callable cb data) # kvs) =
     bind (generate_callback_data DIGEST get_hmac c cb data) (\<lambda>v.
     bind (resolve_item DIGEST get_hmac c kvs) (\<lambda>new. Inr ((key, v) # new)))"

fun get_content ::
  "(bytes \<Rightarrow> bytes) \<Rightarrow> ('bot \<Rightarrow> bytes \<Rightarrow> bytes) \<Rightarrow> 'bot Ctx \<Rightarrow> item list
     \<Rightarrow> error + (string \<times> pystr) list list" where
  "get_content DIGEST get_hmac c [] = Inr []"
| "get_content DIGEST get_hmac c (it # items) =
     bind (resolve_item DIGEST get_hmac c it) (\<lambda>new.
     bind (get_content DIGEST get_hmac c items) (\<lambda>rest. Inr (new # rest)))"

text \<open>
  \<open>Buttons._rows\<close> is a dictionary from row index to row. A Python dictionary keeps
  its entries in the order in which the keys were first stored, so it is a list of
  pairs with distinct keys, a new key going to the end.
\<close>

record Buttons =
  rows :: "(int \<times> ButtonsRow) list"

definition buttons :: Buttons where
  "buttons = \<lparr>rows = []\<rparr>"

text \<open>
  \<open>kb[index]\<close> stores an empty row under an index that has none, and gives the row
  stored under the index. The row is shared with the dictionary: a method called on it
  changes the entry, which \<open>on_row\<close> writes out.
\<close>

definition getitem :: "Buttons \<Rightarrow> int \<Rightarrow> Buttons" where
  "getitem kb index =
     (if index \<notin> fst ` set (rows kb)
      then kb\<lparr>rows := rows kb @ [(index, ButtonsRow_init)]\<rparr>
      else kb)"

definition on_row :: "Buttons \<Rightarrow> int \<Rightarrow> (ButtonsRow \<Rightarrow> ButtonsRow) \<Rightarrow> Buttons" where
  "on_row kb index method =
     (let kb' = getitem kb index
      in kb'\<lparr>rows := map (\<lambda>(i, row). if i = index then (i, method row) else (i, row))
                        (rows kb')\<rparr>)"

fun rows_content ::
  "(bytes \<Rightarrow> bytes) \<Rightarrow> ('bot \<Rightarrow> bytes \<Rightarrow> bytes) \<Rightarrow> 'bot Ctx \<Rightarrow> ButtonsRow list
     \<Rightarrow> error + (string \<times> pystr) list list list" where
  "rows_content DIGEST get_hmac c [] = Inr []"
| "rows_content DIGEST get_hmac c (row # others) =
     bind (get_content DIGEST get_hmac c (content row)) (\<lambda>cells.
     bind (rows_content DIGEST get_hmac c others) (\<lambda>rest. Inr (cells # rest)))"

definition serialize_attachment ::
  "(bytes \<Rightarrow> bytes) \<Rightarrow> ('bot \<Rightarrow> bytes \<Rightarrow> bytes) \<Rightarrow> 'bot Ctx \<Rightarrow> Buttons
     \<Rightarrow> error + (string \<times> (string \<times> pystr) list list list) list" where
  "serialize_attachment DIGEST get_hmac c kb =
     bind (rows_content DIGEST get_hmac c (map snd (sort_key fst (rows kb))))
       (\<lambda>rows. Inr [(''inline_keyboard'', rows)])"

section \<open>The dispatcher\<close>

text \<open>
  A hook returns a Python value or raises. \<open>truthy\<close> is Python's truth value of a
  value; \<open>process\<close> itself does not use it, it tests \<open>result is True\<close>.
\<close>

datatype pyval = PyNone | PyBool bool | PyInt int | PyStr pystr

fun truthy :: "pyval \<Rightarrow> bool" where
  "truthy PyNone = False"
| "truthy (PyBool b) = b"
| "truthy (PyInt i) = (i \<noteq> 0)"
| "truthy (PyStr s) = (s \<noteq> [])"

record Update =
  update_id :: int
  callback_chat :: Chat
  callback_data :: pystr

record 'bot Hook =
  hook_name :: string
  call :: "'bot \<Rightarrow> Update \<Rightarrow> bytes \<Rightarrow> pystr option \<Rightarrow> error + pyval"

text \<open>
  The four messages that \<open>process\<close> writes to \<open>bot.logger\<close>, with the level of
  each, and the record of one run: the log, the hooks called with the arguments they
  got (in order), and the exception that left \<open>process\<close>, if any.
\<close>

datatype level = WARNING | DEBUG

datatype message =
    Tampered_skipped int
  | Processing_with int string
  | Processed_by int string
  | No_hook_processed int

type_synonym invocation = "string \<times> Update \<times> bytes \<times> pystr option"

record outcome =
  logged :: "(level \<times> message) list"
  calls :: "invocation list"
  raised :: "error option"

fun run_hooks ::
  "'bot \<Rightarrow> Update \<Rightarrow> bytes \<Rightarrow> pystr option \<Rightarrow> 'bot Hook list \<Rightarrow> outcome" where
  "run_hooks bt update name data [] =
     \<lparr>logged = [(DEBUG, No_hook_processed (update_id update))], calls = [], raised = None\<rparr>"
| "run_hooks bt update name data (hook # hooks) =
     (let entry = (DEBUG, Processing_with (update_id update) (hook_name hook));
          inv = (hook_name hook, update, name, data)
      in case call hook bt update name data of
           Inl e \<Rightarrow> \<lparr>logged = [entry], calls = [inv], raised = Some e\<rparr>
         | Inr result \<Rightarrow>
             if result = PyBool True
             then \<lparr>logged = [entry, (DEBUG, Processed_by (update_id update) (hook_name hook))],
                   calls = [inv], raised = None\<rparr>
             else
               (let rest = run_hooks bt update name data hooks
                in rest\<lparr>logged := entry # logged rest, calls := inv # calls rest\<rparr>))"

definition process ::
  "('bot \<Rightarrow> bytes \<Rightarrow> bytes) \<Rightarrow> 'bot \<Rightarrow> (string \<rightharpoonup> 'bot Hook list) \<Rightarrow> Update \<Rightarrow> outcome" where
  "process get_hmac bt the_chains update =
     (let chat = callback_chat update;
          raw = callback_data update
      in case parse_callback_data get_hmac bt chat raw of
           Inl e \<Rightarrow>
             if e = TamperedMessageError
             then \<lparr>logged = [(WARNING, Tampered_skipped (update_id update))],
                   calls = [], raised = None\<rparr>
             else \<lparr>logged = [], calls = [], raised = Some e\<rparr>
         | Inr (name, data) \<Rightarrow>
             (case the_chains ''callbacks'' of
                None \<Rightarrow> \<lparr>logged = [], calls = [], raised = Some (KeyError ''callbacks'')\<rparr>
              | Some hooks \<Rightarrow> run_hooks bt update name data hooks))"

section \<open>Auxiliary definitions for the proofs\<close>

text \<open>A byte string is ASCII when every byte is below 128.\<close>

definition ascii :: "bytes \<Rightarrow> bool" where
  "ascii xs = list_all (\<lambda>b. unat b < 128) xs"

text \<open>
  A digest and a keyed digest of 16 bytes each, on which the theorems are instantiated
  at concrete inputs: sixteen copies of the sum of all bytes (of the key and the
  message, for the keyed one) modulo 256. The bot is its key here. They stand in for
  \<open>hashlib.md5\<close> and \<open>crypto.get_hmac\<close> and are of course not cryptographic.
\<close>

definition checksum_digest :: "bytes \<Rightarrow> bytes" where
  "checksum_digest msg = replicate 16 (sum_list msg)"

definition checksum_hmac :: "bytes \<Rightarrow> bytes \<Rightarrow> bytes" where
  "checksum_hmac key msg = replicate 16 (sum_list key + sum_list msg)"

text \<open>
  A hook with a given name that returns a given value whatever it is called with, and
  an update of chat 1 whose data is the token for the name \<open>"a"\<close> with no payload
  under the digests above and the key \<open>[1, 2, 3]\<close>.
\<close>

definition hook_returning :: "string \<Rightarrow> pyval \<Rightarrow> 'bot Hook" where
  "hook_returning n v = \<lparr>hook_name = n, call = (\<lambda>bt update name data. Inr v)\<rparr>"

text \<open>The dictionary of chains that has the given hooks under \<open>"callbacks"\<close>.\<close>

definition callbacks_chain :: "'bot Hook list \<Rightarrow> (string \<rightharpoonup> 'bot Hook list)" where
  "callbacks_chain hooks = [''callbacks'' \<mapsto> hooks]"

definition pressed :: Update where
  "pressed =
     \<lparr>update_id = 7, callback_chat = \<lparr>chat_id = 1\<rparr>,
      callback_data =
        [80, 122, 56, 47, 80, 122, 56, 47, 80, 122, 56, 47, 80, 122, 56, 47,
         80, 122, 56, 47, 80, 50, 70, 104, 89, 87, 70, 104, 89, 87, 70, 104]\<rparr>"

text \<open>
  What application code does to a keyboard, one statement at a time: \<open>kb[i]\<close> alone,
  \<open>kb[i].url(label, target)\<close>, \<open>kb[i].callback(label, cb, data)\<close> and
  \<open>kb[i].switch_inline_query(label, query, current_chat)\<close>. \<open>build\<close> runs a list
  of statements on a new keyboard.
\<close>

datatype statement =
    Access int
  | Url int pystr pystr
  | Callback int pystr pystr "pystr option"
  | Switch_inline_query int pystr pystr bool

fun row_index :: "statement \<Rightarrow> int" where
  "row_index (Access i) = i"
| "row_index (Url i label target) = i"
| "row_index (Callback i label cb data) = i"
| "row_index (Switch_inline_query i label query current_chat) = i"

fun perform :: "Buttons \<Rightarrow> statement \<Rightarrow> Buttons" where
  "perform kb (Access i) = getitem kb i"
| "perform kb (Url i label target) = on_row kb i (\<lambda>row. url row label target)"
| "perform kb (Callback i label cb data) = on_row kb i (\<lambda>row. callback row label cb data)"
| "perform kb (Switch_inline_query i label query current_chat) =
     on_row kb i (\<lambda>row. switch_inline_query row label query current_chat)"

definition build :: "statement list \<Rightarrow> Buttons" where
  "build statements = foldl perform buttons statements"

section \<open>Base64: decoding what was encoded\<close>

lemma unat_b2a:
  "n < 64 \<Longrightarrow> unat (table_b2a_base64 n) =
     (if n < 26 then 65 + n else if n < 52 then 71 + n
      else if n < 62 then n - 4 else if n = 62 then 43 else 47)"
  unfolding table_b2a_base64_def
  by (simp only: unat_of_nat split: if_splits) simp

lemma table_roundtrip:
  "n < 64 \<Longrightarrow> table_a2b_base64 (table_b2a_base64 n) = Some n"
  unfolding table_a2b_base64_def Let_def
  by (simp only: unat_b2a) auto

lemma table_not_pad:
  "n < 64 \<Longrightarrow> table_b2a_base64 n \<noteq> BASE64_PAD"
  using unat_b2a[of n] unfolding BASE64_PAD_def
  by (auto simp: word_unat_eq_iff split: if_splits)

lemma table_ascii:
  "n < 64 \<Longrightarrow> unat (table_b2a_base64 n) < 128"
  using unat_b2a[of n] 
  by (auto split: if_splits)

lemma byte_lt: "unat (a::byte) < 256"
  using unsigned_less[of a, where 'a=nat] by simp

lemma div_pack: "y < k \<Longrightarrow> (x * k + y) div k = (x::nat)"
  by simp

lemma mod_pack: "y < k \<Longrightarrow> (x * k + y) mod k = (y::nat)"
  by simp

lemma a2b_step0:
  "n < 64 \<Longrightarrow> a2b_base64 0 l p (table_b2a_base64 n # cs) = a2b_base64 1 n 0 cs"
  by (simp add: table_roundtrip table_not_pad)

lemma a2b_step1:
  "n < 64 \<Longrightarrow> a2b_base64 1 l p (table_b2a_base64 n # cs) =
     emit (of_nat (l * 4 + n div 16)) (a2b_base64 2 (n mod 16) 0 cs)"
  by (simp add: table_roundtrip table_not_pad)

lemma a2b_step2:
  "n < 64 \<Longrightarrow> a2b_base64 2 l p (table_b2a_base64 n # cs) =
     emit (of_nat (l * 16 + n div 4)) (a2b_base64 3 (n mod 4) 0 cs)"
  by (simp add: table_roundtrip table_not_pad)

lemma a2b_step3:
  "n < 64 \<Longrightarrow> a2b_base64 3 l p (table_b2a_base64 n # cs) =
     emit (of_nat (l * 64 + n)) (a2b_base64 0 0 0 cs)"
  by (simp add: table_roundtrip table_not_pad)

lemma sextets:
  "unat (a::byte) div 4 < 64" "unat a mod 4 * 16 + unat (b::byte) div 16 < 64"
  "unat b mod 16 * 4 + unat (c::byte) div 64 < 64" "unat c mod 64 < 64"
  "unat a mod 4 * 16 < 64" "unat b mod 16 * 4 < 64"
  using byte_lt[of a] byte_lt[of b] byte_lt[of c] by arith+

lemma regroup:
  "of_nat (unat (a::byte) div 4 * 4 + (unat a mod 4 * 16 + unat (b::byte) div 16) div 16) = a"
  "of_nat ((unat a mod 4 * 16 + unat b div 16) mod 16 * 16
      + (unat b mod 16 * 4 + unat (c::byte) div 64) div 4) = b"
  "of_nat ((unat b mod 16 * 4 + unat c div 64) mod 4 * 64 + unat c mod 64) = c"
proof -
  have b16: "unat b div 16 < 16" and c64: "unat c div 64 < 4"
    using byte_lt[of b] byte_lt[of c] by simp_all
  have "unat a div 4 * 4 + (unat a mod 4 * 16 + unat b div 16) div 16 = unat a"
    by (simp only: div_pack [OF b16] div_mult_mod_eq)
  then show "of_nat (unat a div 4 * 4 + (unat a mod 4 * 16 + unat b div 16) div 16) = a"
    by simp
  have "(unat a mod 4 * 16 + unat b div 16) mod 16 * 16
      + (unat b mod 16 * 4 + unat c div 64) div 4 = unat b"
    by (simp only: mod_pack [OF b16] div_pack [OF c64] div_mult_mod_eq)
  then show "of_nat ((unat a mod 4 * 16 + unat b div 16) mod 16 * 16
      + (unat b mod 16 * 4 + unat (c::byte) div 64) div 4) = b" by simp
  have "(unat b mod 16 * 4 + unat c div 64) mod 4 * 64 + unat c mod 64 = unat c"
    by (simp only: mod_pack [OF c64] div_mult_mod_eq)
  then show "of_nat ((unat b mod 16 * 4 + unat c div 64) mod 4 * 64 + unat c mod 64) = c"
    by simp
qed
lemma a2b_group:
  "a2b_base64 0 l p (b64encode [a, b, c] @ cs) = emit a (emit b (emit c (a2b_base64 0 0 0 cs)))"
proof -
  let ?s0 = "unat a div 4" and ?s1 = "unat a mod 4 * 16 + unat b div 16"
  let ?s2 = "unat b mod 16 * 4 + unat c div 64" and ?s3 = "unat c mod 64"
  have "a2b_base64 0 l p (b64encode [a, b, c] @ cs) =
        a2b_base64 0 l p (table_b2a_base64 ?s0 # table_b2a_base64 ?s1 #
                          table_b2a_base64 ?s2 # table_b2a_base64 ?s3 # cs)"
    by (simp del: a2b_base64.simps)
  also have "\<dots> = a2b_base64 1 ?s0 0 (table_b2a_base64 ?s1 #
                          table_b2a_base64 ?s2 # table_b2a_base64 ?s3 # cs)"
    by (rule a2b_step0) (rule sextets)
  also have "\<dots> = emit (of_nat (?s0 * 4 + ?s1 div 16))
       (a2b_base64 2 (?s1 mod 16) 0 (table_b2a_base64 ?s2 # table_b2a_base64 ?s3 # cs))"
    by (rule a2b_step1) (rule sextets)
  also have "\<dots> = emit (of_nat (?s0 * 4 + ?s1 div 16))
       (emit (of_nat (?s1 mod 16 * 16 + ?s2 div 4))
         (a2b_base64 3 (?s2 mod 4) 0 (table_b2a_base64 ?s3 # cs)))"
    by (simp only: a2b_step2 [OF sextets(3)])
  also have "\<dots> = emit (of_nat (?s0 * 4 + ?s1 div 16))
       (emit (of_nat (?s1 mod 16 * 16 + ?s2 div 4))
         (emit (of_nat (?s2 mod 4 * 64 + ?s3)) (a2b_base64 0 0 0 cs)))"
    by (simp only: a2b_step3 [OF sextets(4)])
  finally show ?thesis
    by (simp only: regroup)
qed


lemma emit_Inr [simp]: "emit b (Inr bs) = Inr (b # bs)"
  by (simp add: emit_def bind_def)

lemma a2b_tail1:
  "a2b_base64 0 l p (b64encode [a]) = Inr [a]"
proof -
  let ?s0 = "unat a div 4" and ?s1 = "unat a mod 4 * 16"
  have e: "of_nat (?s0 * 4 + ?s1 div 16) = a"
    by simp
  have "a2b_base64 0 l p (b64encode [a]) =
        a2b_base64 1 ?s0 0 [table_b2a_base64 ?s1, BASE64_PAD, BASE64_PAD]"
    by (simp only: b64encode.simps a2b_step0 [OF sextets(1)])
  also have "\<dots> = emit (of_nat (?s0 * 4 + ?s1 div 16))
       (a2b_base64 2 (?s1 mod 16) 0 [BASE64_PAD, BASE64_PAD])"
    by (rule a2b_step1) (rule sextets)
  also have "\<dots> = Inr [a]"
    by (simp only: e) simp
  finally show ?thesis .
qed

lemma a2b_tail2:
  "a2b_base64 0 l p (b64encode [a, b]) = Inr [a, b]"
proof -
  let ?s0 = "unat a div 4" and ?s1 = "unat a mod 4 * 16 + unat b div 16"
  let ?s2 = "unat b mod 16 * 4"
  have b16: "unat b div 16 < 16"
    using byte_lt [of b] by simp
  have "?s0 * 4 + ?s1 div 16 = unat a"
    by (simp only: div_pack [OF b16] div_mult_mod_eq)
  then have e1: "of_nat (?s0 * 4 + ?s1 div 16) = a"
    by simp
  have "?s1 mod 16 * 16 + ?s2 div 4 = unat b"
    by (simp only: mod_pack [OF b16]) simp
  then have e2: "of_nat (?s1 mod 16 * 16 + ?s2 div 4) = b"
    by simp
  have "a2b_base64 0 l p (b64encode [a, b]) =
        a2b_base64 1 ?s0 0 [table_b2a_base64 ?s1, table_b2a_base64 ?s2, BASE64_PAD]"
    by (simp only: b64encode.simps a2b_step0 [OF sextets(1)])
  also have "\<dots> = emit (of_nat (?s0 * 4 + ?s1 div 16))
       (a2b_base64 2 (?s1 mod 16) 0 [table_b2a_base64 ?s2, BASE64_PAD])"
    by (rule a2b_step1) (rule sextets)
  also have "\<dots> = emit (of_nat (?s0 * 4 + ?s1 div 16))
       (emit (of_nat (?s1 mod 16 * 16 + ?s2 div 4))
          (a2b_base64 3 (?s2 mod 4) 0 [BASE64_PAD]))"
    by (simp only: a2b_step2 [OF sextets(6)])
  also have "\<dots> = Inr [a, b]"
    by (simp only: e1 e2) simp
  finally show ?thesis .
qed

lemma a2b_b64encode: "a2b_base64 0 l p (b64encode xs) = Inr xs"
proof (induction xs arbitrary: l p rule: b64encode.induct)
  case 1
  show ?case by simp
next
  case (2 a)
  show ?case by (rule a2b_tail1)
next
  case (3 a b)
  show ?case by (rule a2b_tail2)
next
  case (4 a b c r)
  have "b64encode (a # b # c # r) = b64encode [a, b, c] @ b64encode r"
    by simp
  then show ?case
    by (simp only: a2b_group "4.IH") simp
qed

lemma b64decode_b64encode: "b64decode (b64encode xs) = Inr xs"
  by (simp add: b64decode_def a2b_b64encode)

lemma length_b64encode: "length (b64encode xs) = 4 * ((length xs + 2) div 3)"
proof (induction xs rule: b64encode.induct)
  case (4 a b c r)
  have "length (a # b # c # r) + 2 = (length r + 2) + 3"
    by simp
  then have d: "(length (a # b # c # r) + 2) div 3 = (length r + 2) div 3 + 1"
    by (simp only: div_add_self2) 
  have "length (b64encode (a # b # c # r)) = 4 + length (b64encode r)"
    by simp
  also have "\<dots> = 4 * ((length r + 2) div 3 + 1)"
    using 4 by simp
  finally show ?case
    by (simp only: d)
qed simp_all

section \<open>UTF-8: decoding what was encoded\<close>

lemma unat_byte: "n < 256 \<Longrightarrow> unat (of_nat n :: byte) = n"
  by (simp add: unat_of_nat)

lemma cpoint_Inr [simp]: "cpoint (Inr cs) c = Inr (c # cs)"
  by (simp add: cpoint_def bind_def)

lemma cpoint_Inl [simp]: "cpoint (Inl e) c = Inl e"
  by (simp add: cpoint_def bind_def)

lemma decode_1:
  assumes "c < 128"
  shows "decode_utf8 (of_nat c # rest) = cpoint (decode_utf8 rest) c"
proof -
  have "unat (of_nat c :: byte) = c"
    using assms by (simp add: unat_byte)
  then show ?thesis
    using assms by simp
qed

lemma decode_2:
  assumes "2 \<le> q" "q < 32" "r < 64"
  shows "decode_utf8 (of_nat (0xC0 + q) # of_nat (0x80 + r) # rest) =
           cpoint (decode_utf8 rest) (q * 64 + r)"
proof -
  have u0: "unat (of_nat (0xC0 + q) :: byte) = 0xC0 + q"
    and u1: "unat (of_nat (0x80 + r) :: byte) = 0x80 + r"
    using assms by (simp_all add: unat_byte del: of_nat_add)
  show ?thesis
    using assms by (simp add: u0 u1 cont_def del: of_nat_add)
qed

lemma decode_3:
  assumes "q1 < 16" "q2 < 64" "r < 64" "q1 = 0 \<longrightarrow> 32 \<le> q2" "q1 = 13 \<longrightarrow> q2 < 32"
  shows "decode_utf8 (of_nat (0xE0 + q1) # of_nat (0x80 + q2) # of_nat (0x80 + r) # rest) =
           cpoint (decode_utf8 rest) (q1 * 4096 + q2 * 64 + r)"
proof -
  have u0: "unat (of_nat (0xE0 + q1) :: byte) = 0xE0 + q1"
    and u1: "unat (of_nat (0x80 + q2) :: byte) = 0x80 + q2"
    and u2: "unat (of_nat (0x80 + r) :: byte) = 0x80 + r"
    using assms by (simp_all add: unat_byte del: of_nat_add)
  show ?thesis
    using assms by (auto simp add: u0 u1 u2 cont_def cont_in_def simp del: of_nat_add)
qed

lemma decode_4:
  assumes "q1 < 5" "q2 < 64" "q3 < 64" "r < 64" "q1 = 0 \<longrightarrow> 16 \<le> q2" "q1 = 4 \<longrightarrow> q2 < 16"
  shows "decode_utf8 (of_nat (0xF0 + q1) # of_nat (0x80 + q2) # of_nat (0x80 + q3)
            # of_nat (0x80 + r) # rest) =
           cpoint (decode_utf8 rest) (q1 * 262144 + q2 * 4096 + q3 * 64 + r)"
proof -
  have u0: "unat (of_nat (0xF0 + q1) :: byte) = 0xF0 + q1"
    and u1: "unat (of_nat (0x80 + q2) :: byte) = 0x80 + q2"
    and u2: "unat (of_nat (0x80 + q3) :: byte) = 0x80 + q3"
    and u3: "unat (of_nat (0x80 + r) :: byte) = 0x80 + r"
    using assms by (simp_all add: unat_byte del: of_nat_add)
  show ?thesis
    using assms by (auto simp add: u0 u1 u2 u3 cont_def cont_in_def simp del: of_nat_add)
qed


lemma low_digit_E0: "32 \<le> (m::nat) \<Longrightarrow> m div 64 = 0 \<longrightarrow> 32 \<le> m mod 64"
  by (auto simp: div_eq_0_iff)
lemma low_digit_ED: "\<not> (864 \<le> m \<and> m < 896) \<Longrightarrow> (m::nat) div 64 = 13 \<longrightarrow> m mod 64 < 32"
proof
  assume a: "\<not> (864 \<le> m \<and> m < 896)" and d: "m div 64 = 13"
  have "m = 13 * 64 + m mod 64"
    using div_mult_mod_eq [of m 64] d by simp
  moreover have "m mod 64 < 64" by simp
  ultimately show "m mod 64 < 32"
    using a by linarith
qed
lemma low_digit_F0: "16 \<le> (k::nat) \<Longrightarrow> k div 64 = 0 \<longrightarrow> 16 \<le> k mod 64"
  by (auto simp: div_eq_0_iff)
lemma low_digit_F4: "(k::nat) < 272 \<Longrightarrow> k div 64 = 4 \<longrightarrow> k mod 64 < 16"
proof
  assume a: "k < 272" and d: "k div 64 = 4"
  have "k = 4 * 64 + k mod 64"
    using div_mult_mod_eq [of k 64] d by simp
  then show "k mod 64 < 16"
    using a by linarith
qed
lemma horner3: "a * 64 + b = m \<Longrightarrow> m * 64 + r = c \<Longrightarrow> a * 4096 + b * 64 + r = (c::nat)"
  by auto

lemma horner4:
  "a * 64 + b = k \<Longrightarrow> k * 64 + d = m \<Longrightarrow> m * 64 + r = c \<Longrightarrow>
     a * 262144 + b * 4096 + d * 64 + r = (c::nat)"
  by auto

lemma split64: "c div 64 * 64 + c mod 64 = (c::nat)"
  by simp

lemma decode_utf8_char:
  assumes enc: "utf8_char c = Inr bs" and c: "c < 0x110000"
  shows "decode_utf8 (bs @ rest) = cpoint (decode_utf8 rest) c"
proof -
  consider (a) "c < 0x80" | (b) "0x80 \<le> c" "c < 0x800"
    | (c) "0x800 \<le> c" "c < 0x10000" | (d) "0x10000 \<le> c"
    by linarith
  then show ?thesis
  proof cases
    case a
    then have "bs = [of_nat c]"
      using enc by (simp add: utf8_char_def)
    then show ?thesis
      using a by (simp only: append.simps decode_1)
  next
    case b
    then have bs: "bs = [of_nat (0xC0 + c div 64), of_nat (0x80 + c mod 64)]"
      using enc by (simp add: utf8_char_def del: of_nat_add)
    have "2 \<le> c div 64" "c div 64 < 32" "c mod 64 < 64"
      using b by simp_all
    then have "decode_utf8 (bs @ rest) = cpoint (decode_utf8 rest) (c div 64 * 64 + c mod 64)"
      unfolding bs append.simps by (rule decode_2)
    then show ?thesis
      by (simp only: split64)
  next
    case c
    then have ns: "\<not> (0xD800 \<le> c \<and> c < 0xE000)"
      using enc by (auto simp add: utf8_char_def simp del: of_nat_add)
    then have bs: "bs = [of_nat (0xE0 + c div 4096), of_nat (0x80 + c div 64 mod 64),
                         of_nat (0x80 + c mod 64)]"
      using enc c by (auto simp add: utf8_char_def simp del: of_nat_add split: if_splits)
    define m where "m = c div 64"
    have m: "m div 64 = c div 4096"
      by (simp add: m_def div_mult2_eq)
    have mb: "32 \<le> m" "m < 1024" "\<not> (864 \<le> m \<and> m < 896)"
      using c ns by (auto simp: m_def)
    have "m div 64 < 16" "m mod 64 < 64" "c mod 64 < 64"
         "m div 64 = 0 \<longrightarrow> 32 \<le> m mod 64" "m div 64 = 13 \<longrightarrow> m mod 64 < 32"
      using mb by (simp_all add: low_digit_E0 low_digit_ED)
    then have "decode_utf8 (of_nat (0xE0 + m div 64) # of_nat (0x80 + m mod 64)
                  # of_nat (0x80 + c mod 64) # rest) =
               cpoint (decode_utf8 rest) (m div 64 * 4096 + m mod 64 * 64 + c mod 64)"
      by (rule decode_3)
    moreover have "m div 64 * 4096 + m mod 64 * 64 + c mod 64 = c"
      by (rule horner3 [of _ _ m]) (simp_all add: m_def)
    ultimately have "decode_utf8 (of_nat (0xE0 + m div 64) # of_nat (0x80 + m mod 64)
                  # of_nat (0x80 + c mod 64) # rest) = cpoint (decode_utf8 rest) c"
      by (simp only:)
    then show ?thesis
      unfolding bs append.simps m [symmetric] by (simp only: m_def)
  next
    case d
    then have bs: "bs = [of_nat (0xF0 + c div 262144), of_nat (0x80 + c div 4096 mod 64),
                         of_nat (0x80 + c div 64 mod 64), of_nat (0x80 + c mod 64)]"
      using enc by (simp add: utf8_char_def del: of_nat_add)
    define m where "m = c div 64"
    define k where "k = m div 64"
    have k: "k = c div 4096" "k div 64 = c div 262144"
      by (simp_all add: k_def m_def div_mult2_eq)
    have kb: "16 \<le> k" "k < 272"
      using d assms(2) by (auto simp: k)
    have "k div 64 < 5" "k mod 64 < 64" "m mod 64 < 64" "c mod 64 < 64"
         "k div 64 = 0 \<longrightarrow> 16 \<le> k mod 64" "k div 64 = 4 \<longrightarrow> k mod 64 < 16"
      using kb by (simp_all add: low_digit_F0 low_digit_F4)
    then have "decode_utf8 (of_nat (0xF0 + k div 64) # of_nat (0x80 + k mod 64)
                  # of_nat (0x80 + m mod 64) # of_nat (0x80 + c mod 64) # rest) =
               cpoint (decode_utf8 rest)
                 (k div 64 * 262144 + k mod 64 * 4096 + m mod 64 * 64 + c mod 64)"
      by (rule decode_4)
    moreover have "k div 64 * 262144 + k mod 64 * 4096 + m mod 64 * 64 + c mod 64 = c"
      by (rule horner4 [of _ _ k _ m]) (simp_all add: m_def k_def)
    ultimately have "decode_utf8 (of_nat (0xF0 + k div 64) # of_nat (0x80 + k mod 64)
                  # of_nat (0x80 + m mod 64) # of_nat (0x80 + c mod 64) # rest) =
               cpoint (decode_utf8 rest) c"
      by (simp only:)
    then show ?thesis
      unfolding bs append.simps k(2) [symmetric] k(1) [symmetric] by (simp only: m_def)
  qed
qed

lemma bind_Inr [simp]: "bind (Inr x) f = f x"
  by (simp add: bind_def)

lemma bind_Inl [simp]: "bind (Inl e) f = Inl e"
  by (simp add: bind_def)

lemma bind_eq_Inr: "bind m f = Inr y \<longleftrightarrow> (\<exists>x. m = Inr x \<and> f x = Inr y)"
  by (cases m) simp_all

lemma utf8_char_error: "utf8_char c = Inl e \<Longrightarrow> e = UnicodeEncodeError"
  by (auto simp: utf8_char_def split: if_splits)

lemma encode_utf8_error: "encode_utf8 s = Inl e \<Longrightarrow> e = UnicodeEncodeError"
proof (induction s)
  case Nil
  then show ?case by simp
next
  case (Cons c s)
  then show ?case
    by (cases "utf8_char c"; cases "encode_utf8 s") (auto dest: utf8_char_error)
qed

lemma decode_utf8_error: "decode_utf8 bs = Inl e \<Longrightarrow> e = UnicodeDecodeError"
proof (induction bs arbitrary: e rule: decode_utf8.induct)
  case 1
  then show ?case by simp
next
  case (2 b0 bs)
  have cp: "\<And>r c. cpoint r c = Inl e \<Longrightarrow> r = Inl e"
    by (auto simp: cpoint_def bind_def split: sum.splits)
  from "2.prems" show ?case
    by (auto split: if_splits list.splits dest!: cp intro: "2.IH")
qed

lemma encode_utf8_append:
  "encode_utf8 (s @ t) =
     bind (encode_utf8 s) (\<lambda>a. bind (encode_utf8 t) (\<lambda>b. Inr (a @ b)))"
proof (induction s)
  case Nil
  show ?case by (cases "encode_utf8 t") simp_all
next
  case (Cons c s)
  show ?case
    by (cases "utf8_char c"; cases "encode_utf8 s"; cases "encode_utf8 t")
       (simp_all add: Cons.IH)
qed

lemma decode_encode_utf8_append:
  assumes "is_str s" and "encode_utf8 s = Inr bs"
  shows "decode_utf8 (bs @ rest) = bind (decode_utf8 rest) (\<lambda>t. Inr (s @ t))"
  using assms
proof (induction s arbitrary: bs)
  case Nil
  then show ?case by (cases "decode_utf8 rest") simp_all
next
  case (Cons c s)
  from Cons.prems(2) obtain cb sb
    where cb: "utf8_char c = Inr cb" and sb: "encode_utf8 s = Inr sb" and bs: "bs = cb @ sb"
    by (auto simp: bind_eq_Inr)
  have c: "c < 0x110000" and s: "is_str s"
    using Cons.prems(1) by (simp_all add: is_str_def)
  have "decode_utf8 (cb @ (sb @ rest)) = cpoint (decode_utf8 (sb @ rest)) c"
    using cb c by (rule decode_utf8_char)
  then show ?case
    by (cases "decode_utf8 rest") (simp_all add: bs Cons.IH [OF s sb])
qed

lemma decode_encode_utf8:
  "is_str s \<Longrightarrow> encode_utf8 s = Inr bs \<Longrightarrow> decode_utf8 bs = Inr s"
  using decode_encode_utf8_append [of s bs "[]"] by simp

lemma encode_utf8_ascii: "ascii xs \<Longrightarrow> encode_utf8 (map unat xs) = Inr xs"
proof (induction xs)
  case Nil
  show ?case by simp
next
  case (Cons x xs)
  then have "utf8_char (unat x) = Inr [x]"
    by (simp add: utf8_char_def ascii_def)
  with Cons show ?case
    by (simp add: ascii_def)
qed

lemma decode_utf8_ascii:
  "ascii xs \<Longrightarrow> decode_utf8 (xs @ rest) = bind (decode_utf8 rest) (\<lambda>t. Inr (map unat xs @ t))"
proof (induction xs)
  case Nil
  show ?case by (cases "decode_utf8 rest") simp_all
next
  case (Cons x xs)
  then show ?case
    by (cases "decode_utf8 rest") (simp_all add: ascii_def)
qed

lemma is_str_ascii: "is_str (map unat (xs :: bytes))"
proof -
  have "unat x < 0x110000" for x :: byte
    using byte_lt [of x] by simp
  then show ?thesis
    by (simp add: is_str_def list_all_iff)
qed

lemma ascii_b64encode: "ascii (b64encode xs)"
  by (induction xs rule: b64encode.induct)
     (simp_all add: ascii_def table_ascii sextets BASE64_PAD_def)

lemma encode_utf8_Nil_iff: "encode_utf8 s = Inr [] \<longleftrightarrow> s = []"
proof (cases s)
  case Nil
  then show ?thesis by simp
next
  case (Cons c cs)
  have "utf8_char c \<noteq> Inr []"
    by (simp add: utf8_char_def)
  then show ?thesis
    using Cons by (auto simp: bind_eq_Inr)
qed

section \<open>Tokens\<close>

lemma length_b64encode_24: "length xs = 24 \<Longrightarrow> length (b64encode xs) = 32"
  by (simp add: length_b64encode)

lemma get_callback_data_token:
  assumes name: "encode_utf8 name = Inr nb"
    and data: "encode_utf8 (case data of None \<Rightarrow> [] | Some d \<Rightarrow> d) = Inr d'"
    and str: "is_str (case data of None \<Rightarrow> [] | Some d \<Rightarrow> d)"
    and len: "length d' \<le> 32"
  shows "get_callback_data DIGEST get_hmac bt chat name data =
           Inr (map unat (b64encode (get_signature get_hmac bt chat (take 8 (DIGEST nb)) d'
                                       @ take 8 (DIGEST nb)))
                @ (case data of None \<Rightarrow> [] | Some d \<Rightarrow> d))"
proof -
  let ?p = "case data of None \<Rightarrow> [] | Some d \<Rightarrow> d"
  let ?B = "b64encode (get_signature get_hmac bt chat (take 8 (DIGEST nb)) d' @ take 8 (DIGEST nb))"
  have "decode_utf8 d' = Inr ?p"
    using str data by (rule decode_encode_utf8)
  then have "decode_utf8 (?B @ d') = Inr (map unat ?B @ ?p)"
    by (simp add: decode_utf8_ascii [OF ascii_b64encode])
  then show ?thesis
    using name data len
    by (simp add: get_callback_data_def hashed_callback_name_def Let_def)
qed

lemma parse_callback_data_bytes:
  assumes "encode_utf8 raw = Inr bs" and "32 \<le> length bs"
    and "b64decode (take 32 bs) = Inr prelude"
    and "get_signature get_hmac bt chat (drop 16 prelude) (drop 32 bs) = take 16 prelude"
  shows "parse_callback_data get_hmac bt chat raw =
           (if drop 32 bs \<noteq> []
            then bind (decode_utf8 (drop 32 bs)) (\<lambda>d. Inr (drop 16 prelude, Some d))
            else Inr (drop 16 prelude, None))"
  using assms by (simp add: parse_callback_data_def Let_def compare_def)

lemma parse_callback_data_token:
  assumes h: "length h = 8"
    and sig: "length (get_signature get_hmac bt chat h d) = 16"
    and d: "encode_utf8 p = Inr d"
    and str: "is_str p"
  shows "parse_callback_data get_hmac bt chat
           (map unat (b64encode (get_signature get_hmac bt chat h d @ h)) @ p) =
         Inr (h, if p = [] then None else Some p)"
proof -
  let ?sig = "get_signature get_hmac bt chat h d"
  let ?B = "b64encode (?sig @ h)"
  have lenB: "length ?B = 32"
    using h sig by (simp add: length_b64encode_24)
  have enc: "encode_utf8 (map unat ?B @ p) = Inr (?B @ d)"
    by (simp add: encode_utf8_append encode_utf8_ascii [OF ascii_b64encode] d)
  have tk: "take 32 (?B @ d) = ?B" and dr: "drop 32 (?B @ d) = d"
    using lenB by simp_all
  have pre: "b64decode (take 32 (?B @ d)) = Inr (?sig @ h)"
    by (simp only: tk b64decode_b64encode)
  have sg: "get_signature get_hmac bt chat (drop 16 (?sig @ h)) (drop 32 (?B @ d))
              = take 16 (?sig @ h)"
    using sig by (simp only: dr) simp
  have dec: "decode_utf8 d = Inr p"
    using str d by (rule decode_encode_utf8)
  have nil: "d = [] \<longleftrightarrow> p = []"
    using d encode_utf8_Nil_iff [of p] by auto
  have "parse_callback_data get_hmac bt chat (map unat ?B @ p) =
          (if drop 32 (?B @ d) \<noteq> []
           then bind (decode_utf8 (drop 32 (?B @ d))) (\<lambda>x. Inr (drop 16 (?sig @ h), Some x))
           else Inr (drop 16 (?sig @ h), None))"
    using enc _ pre sg by (rule parse_callback_data_bytes) (simp add: lenB)
  then have "parse_callback_data get_hmac bt chat (map unat ?B @ p) =
          (if d \<noteq> [] then bind (decode_utf8 d) (\<lambda>x. Inr (drop 16 (?sig @ h), Some x))
           else Inr (drop 16 (?sig @ h), None))"
    by (simp only: dr)
  then show ?thesis
    using sig by (simp add: dec nil)
qed

section \<open>Claims about the token codec\<close>

text \<open>
  C1 (as amended). For every name with a UTF-8 encoding, every chat and every payload
  string \<open>p\<close> whose UTF-8 encoding has at most 32 bytes, the token that
  \<open>get_callback_data\<close> produces is decoded by \<open>parse_callback_data\<close>, for the same bot
  and chat, to the hashed name together with \<open>p\<close> when \<open>p\<close> is not empty, and together
  with \<open>None\<close> when \<open>p\<close> is the empty string. The digests have their 16 bytes.
\<close>

theorem C1_roundtrip:
  assumes "encode_utf8 name = Inr nb"
    and "length (DIGEST nb) = 16"
    and "is_str p"
    and "encode_utf8 p = Inr d"
    and "length d \<le> 32"
    and "length (get_signature get_hmac bt chat (take 8 (DIGEST nb)) d) = 16"
  shows "hashed_callback_name DIGEST name = Inr (take 8 (DIGEST nb)) \<and>
         (\<exists>token. get_callback_data DIGEST get_hmac bt chat name (Some p) = Inr token \<and>
            parse_callback_data get_hmac bt chat token =
              Inr (take 8 (DIGEST nb), if p = [] then None else Some p))"
proof -
  let ?h = "take 8 (DIGEST nb)"
  let ?token = "map unat (b64encode (get_signature get_hmac bt chat ?h d @ ?h)) @ p"
  have "get_callback_data DIGEST get_hmac bt chat name (Some p) = Inr ?token"
    using get_callback_data_token [of name nb "Some p" d DIGEST get_hmac bt chat] assms
    by simp
  moreover have "parse_callback_data get_hmac bt chat ?token =
                   Inr (?h, if p = [] then None else Some p)"
    using assms by (intro parse_callback_data_token) simp_all
  moreover have "hashed_callback_name DIGEST name = Inr ?h"
    using assms(1) by (simp add: hashed_callback_name_def)
  ultimately show ?thesis
    by blast
qed

theorem C1_roundtrip_witness:
  "encode_utf8 [0x61] = Inr [0x61] \<and> length (checksum_digest [0x61]) = 16 \<and>
   is_str [0x62] \<and> encode_utf8 [0x62] = Inr [0x62] \<and> length [0x62 :: byte] \<le> 32 \<and>
   length (get_signature checksum_hmac [1, 2, 3] \<lparr>chat_id = 1\<rparr>
             (take 8 (checksum_digest [0x61])) [0x62]) = 16 \<and>
   hashed_callback_name checksum_digest [0x61] = Inr (take 8 (checksum_digest [0x61])) \<and>
   (\<exists>token. get_callback_data checksum_digest checksum_hmac [1, 2, 3] \<lparr>chat_id = 1\<rparr>
               [0x61] (Some [0x62]) = Inr token \<and>
      parse_callback_data checksum_hmac [1, 2, 3] \<lparr>chat_id = 1\<rparr> token =
        Inr (take 8 (checksum_digest [0x61]), if [0x62] = ([] :: pystr) then None else Some [0x62]))"
proof -
  have 1: "encode_utf8 [0x61] = Inr [0x61]" and 2: "length (checksum_digest [0x61]) = 16"
    and 3: "is_str [0x62]" and 4: "encode_utf8 [0x62] = Inr [0x62]"
    and 5: "length [0x62 :: byte] \<le> 32"
    and 6: "length (get_signature checksum_hmac [1, 2, 3] \<lparr>chat_id = 1\<rparr>
             (take 8 (checksum_digest [0x61])) [0x62]) = 16"
    by (simp_all add: utf8_char_def checksum_digest_def checksum_hmac_def is_str_def
          get_signature_def)
  show ?thesis
    using 1 2 3 4 5 6
      C1_roundtrip [where DIGEST = checksum_digest and get_hmac = checksum_hmac, OF 1 2 3 4 5 6]
    by blast
qed

text \<open>
  C1 as stated fails for the empty string, a payload of zero bytes: the token
  for the name \<open>"a"\<close> and the payload \<open>""\<close> is decoded to \<open>None\<close>, not to \<open>""\<close>.
\<close>

theorem C1_empty_payload_counterexample:
  "encode_utf8 [] = Inr [] \<and>
   hashed_callback_name checksum_digest [0x61] = Inr [97, 97, 97, 97, 97, 97, 97, 97] \<and>
   get_callback_data checksum_digest checksum_hmac [1, 2, 3] \<lparr>chat_id = 1\<rparr> [0x61] (Some [])
     = Inr [80, 122, 56, 47, 80, 122, 56, 47, 80, 122, 56, 47, 80, 122, 56, 47,
            80, 122, 56, 47, 80, 50, 70, 104, 89, 87, 70, 104, 89, 87, 70, 104] \<and>
   parse_callback_data checksum_hmac [1, 2, 3] \<lparr>chat_id = 1\<rparr>
       [80, 122, 56, 47, 80, 122, 56, 47, 80, 122, 56, 47, 80, 122, 56, 47,
        80, 122, 56, 47, 80, 50, 70, 104, 89, 87, 70, 104, 89, 87, 70, 104]
     = Inr ([97, 97, 97, 97, 97, 97, 97, 97], None) \<and>
   parse_callback_data checksum_hmac [1, 2, 3] \<lparr>chat_id = 1\<rparr>
       [80, 122, 56, 47, 80, 122, 56, 47, 80, 122, 56, 47, 80, 122, 56, 47,
        80, 122, 56, 47, 80, 50, 70, 104, 89, 87, 70, 104, 89, 87, 70, 104]
     \<noteq> Inr ([97, 97, 97, 97, 97, 97, 97, 97], Some [])"
  by code_simp

text \<open>
  C9. For every name with a UTF-8 encoding and every payload (absent, or a string whose
  UTF-8 encoding \<open>d\<close> has at most 32 bytes), the token is the base64 encoding of the
  16-byte signature followed by the 8-byte hashed name, 32 characters that decode to
  these 24 bytes, followed by the payload; its UTF-8 bytes are that prelude followed by
  \<open>d\<close>. The signature is the keyed digest of hashed name, a zero byte, the chat
  identifier in decimal, a zero byte, and \<open>d\<close>.
\<close>

theorem C9_wire_format:
  assumes "encode_utf8 name = Inr nb"
    and "length (DIGEST nb) = 16"
    and "is_str (case data of None \<Rightarrow> [] | Some p \<Rightarrow> p)"
    and "encode_utf8 (case data of None \<Rightarrow> [] | Some p \<Rightarrow> p) = Inr d"
    and "length d \<le> 32"
    and "h = take 8 (DIGEST nb)"
    and "signature = get_hmac bt (h @ [0] @ str_int (chat_id chat) @ [0] @ d)"
    and "length signature = 16"
  shows "hashed_callback_name DIGEST name = Inr h \<and> length h = 8 \<and>
         get_signature get_hmac bt chat h d = signature \<and>
         get_callback_data DIGEST get_hmac bt chat name data =
           Inr (map unat (b64encode (signature @ h)) @ (case data of None \<Rightarrow> [] | Some p \<Rightarrow> p)) \<and>
         encode_utf8 (map unat (b64encode (signature @ h)) @ (case data of None \<Rightarrow> [] | Some p \<Rightarrow> p))
           = Inr (b64encode (signature @ h) @ d) \<and>
         length (b64encode (signature @ h)) = 32 \<and>
         b64decode (b64encode (signature @ h)) = Inr (signature @ h) \<and>
         length (signature @ h) = 24"
proof -
  have h: "hashed_callback_name DIGEST name = Inr h" and lh: "length h = 8"
    using assms(1,2,6) by (simp_all add: hashed_callback_name_def)
  have sg: "get_signature get_hmac bt chat h d = signature"
    using assms(7) by (simp add: get_signature_def)
  have tok: "get_callback_data DIGEST get_hmac bt chat name data =
           Inr (map unat (b64encode (signature @ h)) @ (case data of None \<Rightarrow> [] | Some p \<Rightarrow> p))"
    using get_callback_data_token [OF assms(1,4,3,5), of DIGEST get_hmac bt chat] sg assms(6)
    by simp
  have enc: "encode_utf8 (map unat (b64encode (signature @ h)) @ (case data of None \<Rightarrow> [] | Some p \<Rightarrow> p))
           = Inr (b64encode (signature @ h) @ d)"
    by (simp add: encode_utf8_append encode_utf8_ascii [OF ascii_b64encode] assms(4))
  have len: "length (b64encode (signature @ h)) = 32"
    using lh assms(8) by (simp add: length_b64encode_24)
  show ?thesis
    using h lh sg tok enc len assms(8) by (simp add: b64decode_b64encode)
qed

theorem C9_wire_format_witness:
  "encode_utf8 [0x61] = Inr [0x61] \<and> length (checksum_digest [0x61]) = 16 \<and>
   is_str [0x62] \<and> encode_utf8 [0x62] = Inr [0x62] \<and> length [0x62 :: byte] \<le> 32 \<and>
   length (checksum_hmac [1, 2, 3]
             (take 8 (checksum_digest [0x61]) @ [0] @ str_int 1 @ [0] @ [0x62])) = 16 \<and>
   get_callback_data checksum_digest checksum_hmac [1, 2, 3] \<lparr>chat_id = 1\<rparr> [0x61] (Some [0x62]) =
     Inr (map unat (b64encode
            (checksum_hmac [1, 2, 3]
               (take 8 (checksum_digest [0x61]) @ [0] @ str_int 1 @ [0] @ [0x62])
             @ take 8 (checksum_digest [0x61]))) @ [0x62]) \<and>
   length (b64encode
            (checksum_hmac [1, 2, 3]
               (take 8 (checksum_digest [0x61]) @ [0] @ str_int 1 @ [0] @ [0x62])
             @ take 8 (checksum_digest [0x61]))) = 32"
proof -
  have 1: "encode_utf8 [0x61] = Inr [0x61]" and 2: "length (checksum_digest [0x61]) = 16"
    and 3: "is_str (case Some [0x62] of None \<Rightarrow> [] | Some p \<Rightarrow> p)"
    and 4: "encode_utf8 (case Some [0x62] of None \<Rightarrow> [] | Some p \<Rightarrow> p) = Inr [0x62]"
    and 5: "length [0x62 :: byte] \<le> 32"
    and 8: "length (checksum_hmac [1, 2, 3]
             (take 8 (checksum_digest [0x61]) @ [0] @ str_int 1 @ [0] @ [0x62])) = 16"
    by (simp_all add: utf8_char_def checksum_digest_def checksum_hmac_def is_str_def)
  have 7: "checksum_hmac [1, 2, 3]
             (take 8 (checksum_digest [0x61]) @ [0] @ str_int 1 @ [0] @ [0x62]) =
           checksum_hmac [1, 2, 3]
             (take 8 (checksum_digest [0x61]) @ [0] @ str_int (chat_id \<lparr>chat_id = 1\<rparr>) @ [0] @ [0x62])"
    by simp
  show ?thesis
    using 1 2 3 4 5 8
      C9_wire_format [where DIGEST = checksum_digest and get_hmac = checksum_hmac
        and chat = "\<lparr>chat_id = 1\<rparr>" and data = "Some [0x62]", OF 1 2 3 4 5 refl 7 8]
    by simp
qed

text \<open>
  C10. For every bot, chat and name with a UTF-8 encoding, \<open>get_callback_data\<close> gives
  the same result for the payload \<open>None\<close> and for the payload \<open>""\<close>, a token, and
  decoding that token gives \<open>None\<close> as the payload, never \<open>""\<close>.
\<close>

theorem C10_omitted_payload:
  assumes "encode_utf8 name = Inr nb"
    and "length (DIGEST nb) = 16"
    and "length (get_signature get_hmac bt chat (take 8 (DIGEST nb)) []) = 16"
  shows "get_callback_data DIGEST get_hmac bt chat name None =
           get_callback_data DIGEST get_hmac bt chat name (Some []) \<and>
         (\<exists>token. get_callback_data DIGEST get_hmac bt chat name None = Inr token \<and>
            parse_callback_data get_hmac bt chat token = Inr (take 8 (DIGEST nb), None) \<and>
            parse_callback_data get_hmac bt chat token \<noteq> Inr (take 8 (DIGEST nb), Some []))"
proof -
  let ?h = "take 8 (DIGEST nb)"
  let ?token = "map unat (b64encode (get_signature get_hmac bt chat ?h [] @ ?h)) @ []"
  have same: "get_callback_data DIGEST get_hmac bt chat name None =
           get_callback_data DIGEST get_hmac bt chat name (Some [])"
    by (simp add: get_callback_data_def)
  have tok: "get_callback_data DIGEST get_hmac bt chat name None = Inr ?token"
    using get_callback_data_token [of name nb None "[]" DIGEST get_hmac bt chat] assms(1)
    by (simp add: is_str_def)
  have "parse_callback_data get_hmac bt chat ?token =
          Inr (?h, if [] = ([] :: pystr) then None else Some [])"
    using assms by (intro parse_callback_data_token) (simp_all add: is_str_def)
  then have p: "parse_callback_data get_hmac bt chat ?token = Inr (?h, None)"
    by simp
  then have "parse_callback_data get_hmac bt chat ?token \<noteq> Inr (?h, Some [])"
    by simp
  with tok p have "\<exists>token. get_callback_data DIGEST get_hmac bt chat name None = Inr token \<and>
            parse_callback_data get_hmac bt chat token = Inr (take 8 (DIGEST nb), None) \<and>
            parse_callback_data get_hmac bt chat token \<noteq> Inr (take 8 (DIGEST nb), Some [])"
    by blast
  with same show ?thesis
    by (rule conjI)
qed

theorem C10_omitted_payload_witness:
  "encode_utf8 [0x61] = Inr [0x61] \<and> length (checksum_digest [0x61]) = 16 \<and>
   length (get_signature checksum_hmac [1, 2, 3] \<lparr>chat_id = 1\<rparr>
             (take 8 (checksum_digest [0x61])) []) = 16 \<and>
   get_callback_data checksum_digest checksum_hmac [1, 2, 3] \<lparr>chat_id = 1\<rparr> [0x61] None =
     get_callback_data checksum_digest checksum_hmac [1, 2, 3] \<lparr>chat_id = 1\<rparr> [0x61] (Some []) \<and>
   (\<exists>token. get_callback_data checksum_digest checksum_hmac [1, 2, 3] \<lparr>chat_id = 1\<rparr> [0x61] None
               = Inr token \<and>
      parse_callback_data checksum_hmac [1, 2, 3] \<lparr>chat_id = 1\<rparr> token =
        Inr (take 8 (checksum_digest [0x61]), None))"
proof -
  have 1: "encode_utf8 [0x61] = Inr [0x61]" and 2: "length (checksum_digest [0x61]) = 16"
    and 3: "length (get_signature checksum_hmac [1, 2, 3] \<lparr>chat_id = 1\<rparr>
             (take 8 (checksum_digest [0x61])) []) = 16"
    by (simp_all add: utf8_char_def checksum_digest_def checksum_hmac_def get_signature_def)
  show ?thesis
    using 1 2 3
      C10_omitted_payload [where DIGEST = checksum_digest and get_hmac = checksum_hmac, OF 1 2 3]
    by blast
qed

text \<open>
  C4. For every name with a UTF-8 encoding and every payload string with UTF-8
  encoding \<open>d\<close>: when \<open>d\<close> has exactly 32 bytes \<open>get_callback_data\<close> returns a token, and
  when \<open>d\<close> has 33 bytes or more it raises \<open>ValueError\<close> (reporting the size), whatever
  the keyed digest is: no signature enters the result.
\<close>

theorem C4_size_boundary:
  fixes bt :: 'bot
  assumes "encode_utf8 name = Inr nb"
    and "is_str p"
    and "encode_utf8 p = Inr d"
  shows "(length d = 32 \<longrightarrow>
            (\<exists>token. get_callback_data DIGEST get_hmac bt chat name (Some p) = Inr token)) \<and>
         (33 \<le> length d \<longrightarrow>
            (\<forall>g. get_callback_data DIGEST g bt chat name (Some p) = Inl (ValueError (length d))))"
proof (intro conjI impI allI)
  assume "length d = 32"
  then show "\<exists>token. get_callback_data DIGEST get_hmac bt chat name (Some p) = Inr token"
    using get_callback_data_token [of name nb "Some p" d DIGEST get_hmac bt chat] assms
    by simp
next
  fix g :: "'bot \<Rightarrow> bytes \<Rightarrow> bytes"
  assume "33 \<le> length d"
  then show "get_callback_data DIGEST g bt chat name (Some p) = Inl (ValueError (length d))"
    using assms by (simp add: get_callback_data_def hashed_callback_name_def)
qed

lemma encode_utf8_replicate_x:
  "encode_utf8 (replicate n 0x78) = Inr (replicate n 0x78)"
  by (induction n) (simp_all add: utf8_char_def)

theorem C4_size_boundary_witness:
  "encode_utf8 [0x61] = Inr [0x61] \<and>
   is_str (replicate 32 0x78) \<and> encode_utf8 (replicate 32 0x78) = Inr (replicate 32 0x78) \<and>
   length (replicate 32 (0x78 :: byte)) = 32 \<and>
   (\<exists>token. get_callback_data checksum_digest checksum_hmac [1, 2, 3] \<lparr>chat_id = 1\<rparr> [0x61]
               (Some (replicate 32 0x78)) = Inr token) \<and>
   is_str (replicate 33 0x78) \<and> encode_utf8 (replicate 33 0x78) = Inr (replicate 33 0x78) \<and>
   33 \<le> length (replicate 33 (0x78 :: byte)) \<and>
   get_callback_data checksum_digest checksum_hmac [1, 2, 3] \<lparr>chat_id = 1\<rparr> [0x61]
     (Some (replicate 33 0x78)) = Inl (ValueError 33)"
proof -
  have 1: "encode_utf8 [0x61] = Inr [0x61]"
    by (simp add: utf8_char_def)
  have 2: "is_str (replicate 32 0x78)" and 3: "is_str (replicate 33 0x78)"
    by (simp_all add: is_str_def list_all_iff)
  note 4 = encode_utf8_replicate_x [of 32] and 5 = encode_utf8_replicate_x [of 33]
  have 6: "length (replicate 32 (0x78 :: byte)) = 32"
    and 7: "33 \<le> length (replicate 33 (0x78 :: byte))"
    by simp_all
  have 8: "\<exists>token. get_callback_data checksum_digest checksum_hmac [1, 2, 3] \<lparr>chat_id = 1\<rparr> [0x61]
               (Some (replicate 32 0x78)) = Inr token"
    using C4_size_boundary [where DIGEST = checksum_digest and get_hmac = checksum_hmac
        and bt = "[1, 2, 3]" and chat = "\<lparr>chat_id = 1\<rparr>", OF 1 2 4] 6
    by blast
  have "get_callback_data checksum_digest checksum_hmac [1, 2, 3] \<lparr>chat_id = 1\<rparr> [0x61]
          (Some (replicate 33 0x78)) = Inl (ValueError (length (replicate 33 (0x78 :: byte))))"
    using C4_size_boundary [where DIGEST = checksum_digest and get_hmac = checksum_hmac
        and bt = "[1, 2, 3]" and chat = "\<lparr>chat_id = 1\<rparr>", OF 1 3 5] 7
    by blast
  then have 9: "get_callback_data checksum_digest checksum_hmac [1, 2, 3] \<lparr>chat_id = 1\<rparr> [0x61]
          (Some (replicate 33 0x78)) = Inl (ValueError 33)"
    by (simp only: length_replicate)
  show ?thesis
    using 1 2 3 4 5 6 7 8 9 by blast
qed

text \<open>
  C5 (as amended). For every raw string whose UTF-8 encoding has 31 bytes or fewer,
  whatever its content, \<open>parse_callback_data\<close> raises \<open>TamperedMessageError\<close> and returns
  no result.
\<close>

theorem C5_minimum_length:
  assumes "encode_utf8 raw = Inr bs" and "length bs \<le> 31"
  shows "parse_callback_data get_hmac bt chat raw = Inl TamperedMessageError"
  using assms by (simp add: parse_callback_data_def)

theorem C5_minimum_length_witness:
  "encode_utf8 (replicate 31 0x78) = Inr (replicate 31 0x78) \<and>
   length (replicate 31 (0x78 :: byte)) \<le> 31 \<and>
   parse_callback_data checksum_hmac [1, 2, 3] \<lparr>chat_id = 1\<rparr> (replicate 31 0x78)
     = Inl TamperedMessageError"
proof -
  note 1 = encode_utf8_replicate_x [of 31]
  have 2: "length (replicate 31 (0x78 :: byte)) \<le> 31"
    by simp
  show ?thesis
    using 1 2 C5_minimum_length [where get_hmac = checksum_hmac, OF 1 2] by blast
qed

lemma replicate_16:
  "replicate 16 x = [x, x, x, x, x, x, x, x, x, x, x, x, x, x, x, x]"
  by (simp add: eval_nat_numeral)

lemmas codec_eval = replicate_16 Let_def
  parse_callback_data_def utf8_char_def b64decode_def table_a2b_base64_def BASE64_PAD_def
  emit_def get_signature_def checksum_hmac_def str_int_def str_nat.simps compare_def
  is_str_def cont_def cont_in_def

text \<open>
  C5 as stated counts characters and fails. The string below has 28 characters, 24 of
  the base64 alphabet followed by four times \<open>U+00E9\<close>, and 32 bytes in UTF-8. The
  base64 decoder skips the eight bytes that are not of its alphabet and returns 18
  bytes: a 16-byte signature, which is the keyed digest of the message built from the
  remaining two bytes as name, and those two bytes. The string is accepted.
\<close>

theorem C5_short_string_counterexample:
  "length [43, 118, 114, 54, 43, 118, 114, 54, 43, 118, 114, 54, 43, 118, 114, 54,
           43, 118, 114, 54, 43, 109, 70, 105, 233, 233, 233, 233 :: nat] = 28 \<and>
   is_str [43, 118, 114, 54, 43, 118, 114, 54, 43, 118, 114, 54, 43, 118, 114, 54,
           43, 118, 114, 54, 43, 109, 70, 105, 233, 233, 233, 233] \<and>
   parse_callback_data checksum_hmac [1, 2, 3] \<lparr>chat_id = 1\<rparr>
     [43, 118, 114, 54, 43, 118, 114, 54, 43, 118, 114, 54, 43, 118, 114, 54,
      43, 118, 114, 54, 43, 109, 70, 105, 233, 233, 233, 233]
     = Inr ([0x61, 0x62], None) \<and>
   parse_callback_data checksum_hmac [1, 2, 3] \<lparr>chat_id = 1\<rparr>
     [43, 118, 114, 54, 43, 118, 114, 54, 43, 118, 114, 54, 43, 118, 114, 54,
      43, 118, 114, 54, 43, 109, 70, 105, 233, 233, 233, 233]
     \<noteq> Inl TamperedMessageError"
  by (simp add: codec_eval)

text \<open>
  C3 (as amended). For a raw string that has a UTF-8 encoding \<open>bs\<close>, an input shorter than
  32 bytes, a base64 failure of the 32-byte prelude and a signature mismatch each
  raise \<open>TamperedMessageError\<close>, and \<open>parse_callback_data\<close> raises nothing else unless
  the signature has been verified and the payload bytes are malformed UTF-8.
\<close>

theorem C3_tamper_errors:
  assumes "encode_utf8 raw = Inr bs"
  shows "(length bs < 32 \<longrightarrow>
            parse_callback_data get_hmac bt chat raw = Inl TamperedMessageError) \<and>
         (32 \<le> length bs \<and> b64decode (take 32 bs) = Inl BinasciiError \<longrightarrow>
            parse_callback_data get_hmac bt chat raw = Inl TamperedMessageError) \<and>
         (32 \<le> length bs \<and> b64decode (take 32 bs) = Inr prelude \<and>
          get_signature get_hmac bt chat (drop 16 prelude) (drop 32 bs) \<noteq> take 16 prelude \<longrightarrow>
            parse_callback_data get_hmac bt chat raw = Inl TamperedMessageError) \<and>
         (parse_callback_data get_hmac bt chat raw = Inl e \<longrightarrow>
            e = TamperedMessageError \<or>
            e = UnicodeDecodeError \<and>
            (\<exists>verified. b64decode (take 32 bs) = Inr verified \<and>
               get_signature get_hmac bt chat (drop 16 verified) (drop 32 bs) = take 16 verified \<and>
               decode_utf8 (drop 32 bs) = Inl UnicodeDecodeError))"
proof (intro conjI impI)
  assume "length bs < 32"
  then show "parse_callback_data get_hmac bt chat raw = Inl TamperedMessageError"
    using assms by (simp add: parse_callback_data_def)
next
  assume "32 \<le> length bs \<and> b64decode (take 32 bs) = Inl BinasciiError"
  then show "parse_callback_data get_hmac bt chat raw = Inl TamperedMessageError"
    using assms by (simp add: parse_callback_data_def)
next
  assume "32 \<le> length bs \<and> b64decode (take 32 bs) = Inr prelude \<and>
          get_signature get_hmac bt chat (drop 16 prelude) (drop 32 bs) \<noteq> take 16 prelude"
  then show "parse_callback_data get_hmac bt chat raw = Inl TamperedMessageError"
    using assms by (simp add: parse_callback_data_def Let_def compare_def)
next
  assume e: "parse_callback_data get_hmac bt chat raw = Inl e"
  show "e = TamperedMessageError \<or>
        e = UnicodeDecodeError \<and>
        (\<exists>verified. b64decode (take 32 bs) = Inr verified \<and>
           get_signature get_hmac bt chat (drop 16 verified) (drop 32 bs) = take 16 verified \<and>
           decode_utf8 (drop 32 bs) = Inl UnicodeDecodeError)"
  proof (cases "length bs < 32")
    case True
    then show ?thesis
      using assms e by (simp add: parse_callback_data_def)
  next
    case long: False
    show ?thesis
    proof (cases "b64decode (take 32 bs)")
      case (Inl x)
      then show ?thesis
        using assms e long by (simp add: parse_callback_data_def)
    next
      case (Inr verified)
      show ?thesis
      proof (cases "get_signature get_hmac bt chat (drop 16 verified) (drop 32 bs) = take 16 verified")
        case False
        then show ?thesis
          using assms e long Inr by (simp add: parse_callback_data_def Let_def compare_def)
      next
        case True
        then have "bind (decode_utf8 (drop 32 bs)) (\<lambda>d. Inr (drop 16 verified, Some d)) = Inl e"
          using assms e long Inr
          by (simp add: parse_callback_data_def Let_def compare_def split: if_splits)
        then have "decode_utf8 (drop 32 bs) = Inl e"
          by (cases "decode_utf8 (drop 32 bs)") simp_all
        then have "e = UnicodeDecodeError \<and> decode_utf8 (drop 32 bs) = Inl UnicodeDecodeError"
          using decode_utf8_error by blast
        then show ?thesis
          using Inr True by blast
      qed
    qed
  qed
qed

text \<open>
  C3 as stated fails: the failure the claim lists last is not turned into \<open>TamperedMessageError\<close>. The
  string below has 28 characters of the base64 alphabet, then \<open>U+00E9\<close>, \<open>!\<close> and
  \<open>U+00E9\<close>: 33 bytes in UTF-8. The first 32 bytes decode to 21 bytes, a signature
  that is the keyed digest for the five bytes after it as name and the payload byte
  \<open>0xA9\<close>, the last byte of the string; that payload is malformed UTF-8, and the
  codec's own \<open>UnicodeDecodeError\<close> leaves \<open>parse_callback_data\<close>. A string with a lone
  surrogate does not even reach the checks: encoding it raises \<open>UnicodeEncodeError\<close>.
\<close>

theorem C3_malformed_payload_counterexample:
  "parse_callback_data checksum_hmac [1, 2, 3] \<lparr>chat_id = 1\<rparr>
     [122, 56, 47, 80, 122, 56, 47, 80, 122, 56, 47, 80, 122, 56, 47, 80, 122, 56, 47, 80,
      122, 50, 70, 105, 89, 50, 82, 108, 233, 33, 233]
     = Inl UnicodeDecodeError \<and>
   encode_utf8 [122, 56, 47, 80, 122, 56, 47, 80, 122, 56, 47, 80, 122, 56, 47, 80, 122, 56, 47,
      80, 122, 50, 70, 105, 89, 50, 82, 108, 233, 33, 233]
     = Inr [122, 56, 47, 80, 122, 56, 47, 80, 122, 56, 47, 80, 122, 56, 47, 80, 122, 56, 47,
      80, 122, 50, 70, 105, 89, 50, 82, 108, 0xC3, 0xA9, 33, 0xC3, 0xA9] \<and>
   b64decode [122, 56, 47, 80, 122, 56, 47, 80, 122, 56, 47, 80, 122, 56, 47, 80, 122, 56, 47,
      80, 122, 50, 70, 105, 89, 50, 82, 108, 0xC3, 0xA9, 33, 0xC3]
     = Inr [0xCF, 0xCF, 0xCF, 0xCF, 0xCF, 0xCF, 0xCF, 0xCF, 0xCF, 0xCF, 0xCF, 0xCF, 0xCF, 0xCF,
            0xCF, 0xCF, 0x61, 0x62, 0x63, 0x64, 0x65] \<and>
   get_signature checksum_hmac [1, 2, 3] \<lparr>chat_id = 1\<rparr> [0x61, 0x62, 0x63, 0x64, 0x65] [0xA9]
     = [0xCF, 0xCF, 0xCF, 0xCF, 0xCF, 0xCF, 0xCF, 0xCF, 0xCF, 0xCF, 0xCF, 0xCF, 0xCF, 0xCF,
        0xCF, 0xCF] \<and>
   decode_utf8 [0xA9] = Inl UnicodeDecodeError \<and>
   parse_callback_data checksum_hmac [1, 2, 3] \<lparr>chat_id = 1\<rparr> [0xD800] = Inl UnicodeEncodeError"
  by (simp add: codec_eval)

theorem C3_tamper_errors_witness:
  "encode_utf8 [] = Inr [] \<and> length ([] :: bytes) < 32 \<and>
   parse_callback_data checksum_hmac [1, 2, 3] \<lparr>chat_id = 1\<rparr> [] = Inl TamperedMessageError \<and>
   encode_utf8 [65, 33, 33, 33, 33, 33, 33, 33, 33, 33, 33, 33, 33, 33, 33, 33,
      33, 33, 33, 33, 33, 33, 33, 33, 33, 33, 33, 33, 33, 33, 33, 33]
     = Inr [65, 33, 33, 33, 33, 33, 33, 33, 33, 33, 33, 33, 33, 33, 33, 33,
      33, 33, 33, 33, 33, 33, 33, 33, 33, 33, 33, 33, 33, 33, 33, 33] \<and>
   b64decode (take 32 [65, 33, 33, 33, 33, 33, 33, 33, 33, 33, 33, 33, 33, 33, 33, 33,
      33, 33, 33, 33, 33, 33, 33, 33, 33, 33, 33, 33, 33, 33, 33, 33])
     = Inl BinasciiError \<and>
   parse_callback_data checksum_hmac [1, 2, 3] \<lparr>chat_id = 1\<rparr>
     [65, 33, 33, 33, 33, 33, 33, 33, 33, 33, 33, 33, 33, 33, 33, 33,
      33, 33, 33, 33, 33, 33, 33, 33, 33, 33, 33, 33, 33, 33, 33, 33]
     = Inl TamperedMessageError \<and>
   encode_utf8 [65, 65, 65, 65, 65, 65, 65, 65, 65, 65, 65, 65, 65, 65, 65, 65,
      65, 65, 65, 65, 65, 65, 65, 65, 65, 65, 65, 65, 65, 65, 65, 65]
     = Inr [65, 65, 65, 65, 65, 65, 65, 65, 65, 65, 65, 65, 65, 65, 65, 65,
      65, 65, 65, 65, 65, 65, 65, 65, 65, 65, 65, 65, 65, 65, 65, 65] \<and>
   b64decode (take 32 [65, 65, 65, 65, 65, 65, 65, 65, 65, 65, 65, 65, 65, 65, 65, 65,
      65, 65, 65, 65, 65, 65, 65, 65, 65, 65, 65, 65, 65, 65, 65, 65])
     = Inr [0, 0, 0, 0, 0, 0, 0, 0, 0, 0, 0, 0, 0, 0, 0, 0, 0, 0, 0, 0, 0, 0, 0, 0] \<and>
   get_signature checksum_hmac [1, 2, 3] \<lparr>chat_id = 1\<rparr>
       (drop 16 [0, 0, 0, 0, 0, 0, 0, 0, 0, 0, 0, 0, 0, 0, 0, 0, 0, 0, 0, 0, 0, 0, 0, 0])
       (drop 32 [65, 65, 65, 65, 65, 65, 65, 65, 65, 65, 65, 65, 65, 65, 65, 65,
      65, 65, 65, 65, 65, 65, 65, 65, 65, 65, 65, 65, 65, 65, 65, 65])
     \<noteq> take 16 [0, 0, 0, 0, 0, 0, 0, 0, 0, 0, 0, 0, 0, 0, 0, 0, 0, 0, 0, 0, 0, 0, 0, 0] \<and>
   parse_callback_data checksum_hmac [1, 2, 3] \<lparr>chat_id = 1\<rparr>
     [65, 65, 65, 65, 65, 65, 65, 65, 65, 65, 65, 65, 65, 65, 65, 65,
      65, 65, 65, 65, 65, 65, 65, 65, 65, 65, 65, 65, 65, 65, 65, 65]
     = Inl TamperedMessageError \<and>
   encode_utf8 [122, 56, 47, 80, 122, 56, 47, 80, 122, 56, 47, 80, 122, 56, 47, 80,
      122, 56, 47, 80, 122, 50, 70, 105, 89, 50, 82, 108, 233, 33, 233]
     = Inr [122, 56, 47, 80, 122, 56, 47, 80, 122, 56, 47, 80, 122, 56, 47, 80,
      122, 56, 47, 80, 122, 50, 70, 105, 89, 50, 82, 108, 0xC3, 0xA9, 33, 0xC3, 0xA9] \<and>
   parse_callback_data checksum_hmac [1, 2, 3] \<lparr>chat_id = 1\<rparr>
     [122, 56, 47, 80, 122, 56, 47, 80, 122, 56, 47, 80, 122, 56, 47, 80,
      122, 56, 47, 80, 122, 50, 70, 105, 89, 50, 82, 108, 233, 33, 233]
     = Inl UnicodeDecodeError \<and>
   (\<exists>verified.
      b64decode (take 32 [122, 56, 47, 80, 122, 56, 47, 80, 122, 56, 47, 80, 122, 56, 47, 80,
      122, 56, 47, 80, 122, 50, 70, 105, 89, 50, 82, 108, 0xC3, 0xA9, 33, 0xC3, 0xA9])
        = Inr verified \<and>
      get_signature checksum_hmac [1, 2, 3] \<lparr>chat_id = 1\<rparr> (drop 16 verified)
          (drop 32 [122, 56, 47, 80, 122, 56, 47, 80, 122, 56, 47, 80, 122, 56, 47, 80,
      122, 56, 47, 80, 122, 50, 70, 105, 89, 50, 82, 108, 0xC3, 0xA9, 33, 0xC3, 0xA9])
        = take 16 verified \<and>
      decode_utf8 (drop 32 [122, 56, 47, 80, 122, 56, 47, 80, 122, 56, 47, 80, 122, 56, 47, 80,
      122, 56, 47, 80, 122, 50, 70, 105, 89, 50, 82, 108, 0xC3, 0xA9, 33, 0xC3, 0xA9])
        = Inl UnicodeDecodeError)"
proof -
  have e1: "encode_utf8 [] = Inr []"
    by simp
  have l1: "length ([] :: bytes) < 32"
    by simp
  have r1: "parse_callback_data checksum_hmac [1, 2, 3] \<lparr>chat_id = 1\<rparr> [] = Inl TamperedMessageError"
    using C3_tamper_errors [where get_hmac = checksum_hmac and bt = "[1, 2, 3]"
        and chat = "\<lparr>chat_id = 1\<rparr>", OF e1] l1
    by blast
  have e2: "encode_utf8 [65, 33, 33, 33, 33, 33, 33, 33, 33, 33, 33, 33, 33, 33, 33, 33,
      33, 33, 33, 33, 33, 33, 33, 33, 33, 33, 33, 33, 33, 33, 33, 33]
     = Inr [65, 33, 33, 33, 33, 33, 33, 33, 33, 33, 33, 33, 33, 33, 33, 33,
      33, 33, 33, 33, 33, 33, 33, 33, 33, 33, 33, 33, 33, 33, 33, 33]"
    by (simp add: utf8_char_def)
  have b2: "b64decode (take 32 [65, 33, 33, 33, 33, 33, 33, 33, 33, 33, 33, 33, 33, 33, 33, 33,
      33, 33, 33, 33, 33, 33, 33, 33, 33, 33, 33, 33, 33, 33, 33, 33])
     = Inl BinasciiError"
    by (simp add: codec_eval)
  have r2: "parse_callback_data checksum_hmac [1, 2, 3] \<lparr>chat_id = 1\<rparr>
     [65, 33, 33, 33, 33, 33, 33, 33, 33, 33, 33, 33, 33, 33, 33, 33,
      33, 33, 33, 33, 33, 33, 33, 33, 33, 33, 33, 33, 33, 33, 33, 33]
     = Inl TamperedMessageError"
    using C3_tamper_errors [where get_hmac = checksum_hmac and bt = "[1, 2, 3]"
        and chat = "\<lparr>chat_id = 1\<rparr>", OF e2] b2
    by simp
  have e3: "encode_utf8 [65, 65, 65, 65, 65, 65, 65, 65, 65, 65, 65, 65, 65, 65, 65, 65,
      65, 65, 65, 65, 65, 65, 65, 65, 65, 65, 65, 65, 65, 65, 65, 65]
     = Inr [65, 65, 65, 65, 65, 65, 65, 65, 65, 65, 65, 65, 65, 65, 65, 65,
      65, 65, 65, 65, 65, 65, 65, 65, 65, 65, 65, 65, 65, 65, 65, 65]"
    by (simp add: utf8_char_def)
  have b3: "b64decode (take 32 [65, 65, 65, 65, 65, 65, 65, 65, 65, 65, 65, 65, 65, 65, 65, 65,
      65, 65, 65, 65, 65, 65, 65, 65, 65, 65, 65, 65, 65, 65, 65, 65])
     = Inr [0, 0, 0, 0, 0, 0, 0, 0, 0, 0, 0, 0, 0, 0, 0, 0, 0, 0, 0, 0, 0, 0, 0, 0]"
    by (simp add: codec_eval)
  have s3: "get_signature checksum_hmac [1, 2, 3] \<lparr>chat_id = 1\<rparr>
       (drop 16 [0, 0, 0, 0, 0, 0, 0, 0, 0, 0, 0, 0, 0, 0, 0, 0, 0, 0, 0, 0, 0, 0, 0, 0])
       (drop 32 [65, 65, 65, 65, 65, 65, 65, 65, 65, 65, 65, 65, 65, 65, 65, 65,
      65, 65, 65, 65, 65, 65, 65, 65, 65, 65, 65, 65, 65, 65, 65, 65])
     \<noteq> take 16 [0, 0, 0, 0, 0, 0, 0, 0, 0, 0, 0, 0, 0, 0, 0, 0, 0, 0, 0, 0, 0, 0, 0, 0]"
    by (simp add: codec_eval)
  have r3: "parse_callback_data checksum_hmac [1, 2, 3] \<lparr>chat_id = 1\<rparr>
     [65, 65, 65, 65, 65, 65, 65, 65, 65, 65, 65, 65, 65, 65, 65, 65,
      65, 65, 65, 65, 65, 65, 65, 65, 65, 65, 65, 65, 65, 65, 65, 65]
     = Inl TamperedMessageError"
    using C3_tamper_errors [where get_hmac = checksum_hmac and bt = "[1, 2, 3]"
        and chat = "\<lparr>chat_id = 1\<rparr>"
        and prelude = "[0, 0, 0, 0, 0, 0, 0, 0, 0, 0, 0, 0, 0, 0, 0, 0, 0, 0, 0, 0, 0, 0, 0, 0]", OF e3] b3 s3
    by simp
  have e4: "encode_utf8 [122, 56, 47, 80, 122, 56, 47, 80, 122, 56, 47, 80, 122, 56, 47, 80,
      122, 56, 47, 80, 122, 50, 70, 105, 89, 50, 82, 108, 233, 33, 233]
     = Inr [122, 56, 47, 80, 122, 56, 47, 80, 122, 56, 47, 80, 122, 56, 47, 80,
      122, 56, 47, 80, 122, 50, 70, 105, 89, 50, 82, 108, 0xC3, 0xA9, 33, 0xC3, 0xA9]"
    by (simp add: utf8_char_def)
  have p4: "parse_callback_data checksum_hmac [1, 2, 3] \<lparr>chat_id = 1\<rparr>
     [122, 56, 47, 80, 122, 56, 47, 80, 122, 56, 47, 80, 122, 56, 47, 80,
      122, 56, 47, 80, 122, 50, 70, 105, 89, 50, 82, 108, 233, 33, 233]
     = Inl UnicodeDecodeError"
    by (simp add: codec_eval)
  have r4: "\<exists>verified.
      b64decode (take 32 [122, 56, 47, 80, 122, 56, 47, 80, 122, 56, 47, 80, 122, 56, 47, 80,
      122, 56, 47, 80, 122, 50, 70, 105, 89, 50, 82, 108, 0xC3, 0xA9, 33, 0xC3, 0xA9])
        = Inr verified \<and>
      get_signature checksum_hmac [1, 2, 3] \<lparr>chat_id = 1\<rparr> (drop 16 verified)
          (drop 32 [122, 56, 47, 80, 122, 56, 47, 80, 122, 56, 47, 80, 122, 56, 47, 80,
      122, 56, 47, 80, 122, 50, 70, 105, 89, 50, 82, 108, 0xC3, 0xA9, 33, 0xC3, 0xA9])
        = take 16 verified \<and>
      decode_utf8 (drop 32 [122, 56, 47, 80, 122, 56, 47, 80, 122, 56, 47, 80, 122, 56, 47, 80,
      122, 56, 47, 80, 122, 50, 70, 105, 89, 50, 82, 108, 0xC3, 0xA9, 33, 0xC3, 0xA9])
        = Inl UnicodeDecodeError"
    using C3_tamper_errors [where get_hmac = checksum_hmac and bt = "[1, 2, 3]"
        and chat = "\<lparr>chat_id = 1\<rparr>"
        and e = UnicodeDecodeError, OF e4] p4
    by blast
  show ?thesis
    using e1 l1 r1 e2 b2 r2 e3 b3 s3 r3 e4 p4 r4 by (intro conjI)
qed

section \<open>Claims about the dispatcher\<close>

lemma run_hooks_unclaimed:
  assumes "\<forall>h \<in> set hooks. \<exists>v. call h bt update name data = Inr v \<and> v \<noteq> PyBool True"
  shows "run_hooks bt update name data hooks =
           \<lparr>logged = map (\<lambda>h. (DEBUG, Processing_with (update_id update) (hook_name h))) hooks
                       @ [(DEBUG, No_hook_processed (update_id update))],
            calls = map (\<lambda>h. (hook_name h, update, name, data)) hooks,
            raised = None\<rparr>"
  using assms
proof (induction hooks)
  case Nil
  show ?case by simp
next
  case (Cons h hooks)
  from Cons.prems obtain v where v: "call h bt update name data = Inr v" "v \<noteq> PyBool True"
    by auto
  have "\<forall>h \<in> set hooks. \<exists>v. call h bt update name data = Inr v \<and> v \<noteq> PyBool True"
    using Cons.prems by simp
  then show ?case
    using v by (simp add: Cons.IH Let_def)
qed

lemma run_hooks_first_True:
  assumes "\<forall>h \<in> set before. \<exists>v. call h bt update name data = Inr v \<and> v \<noteq> PyBool True"
    and "call hook bt update name data = Inr (PyBool True)"
  shows "run_hooks bt update name data (before @ hook # after) =
           \<lparr>logged = map (\<lambda>h. (DEBUG, Processing_with (update_id update) (hook_name h))) before
                       @ [(DEBUG, Processing_with (update_id update) (hook_name hook)),
                          (DEBUG, Processed_by (update_id update) (hook_name hook))],
            calls = map (\<lambda>h. (hook_name h, update, name, data)) (before @ [hook]),
            raised = None\<rparr>"
  using assms(1)
proof (induction before)
  case Nil
  show ?case
    using assms(2) by (simp add: Let_def)
next
  case (Cons h before)
  from Cons.prems obtain v where v: "call h bt update name data = Inr v" "v \<noteq> PyBool True"
    by auto
  have "\<forall>h \<in> set before. \<exists>v. call h bt update name data = Inr v \<and> v \<noteq> PyBool True"
    using Cons.prems by simp
  then show ?case
    using v by (simp add: Cons.IH Let_def)
qed

text \<open>
  C6 (as amended). On a successfully decoded event the registered hooks are called in
  registration order with the bot, the event, the hashed name and the payload. The
  scan stops at the first hook whose result is \<open>True\<close> itself: when the hooks before
  it return anything else (a truthy value such as 1 included), exactly they and then
  it are called, the hooks after it are never called, and nothing is raised.
\<close>

theorem C6_first_match:
  assumes "parse_callback_data get_hmac bt (callback_chat update) (callback_data update)
             = Inr (name, data)"
    and "the_chains ''callbacks'' = Some (before @ hook # after)"
    and "\<forall>h \<in> set before. \<exists>v. call h bt update name data = Inr v \<and> v \<noteq> PyBool True"
    and "call hook bt update name data = Inr (PyBool True)"
  shows "calls (process get_hmac bt the_chains update) =
           map (\<lambda>h. (hook_name h, update, name, data)) before
             @ [(hook_name hook, update, name, data)] \<and>
         raised (process get_hmac bt the_chains update) = None \<and>
         logged (process get_hmac bt the_chains update) =
           map (\<lambda>h. (DEBUG, Processing_with (update_id update) (hook_name h))) before
             @ [(DEBUG, Processing_with (update_id update) (hook_name hook)),
                (DEBUG, Processed_by (update_id update) (hook_name hook))]"
proof -
  have "process get_hmac bt the_chains update =
          run_hooks bt update name data (before @ hook # after)"
    using assms(1,2) by (simp add: process_def)
  then show ?thesis
    by (simp add: run_hooks_first_True [OF assms(3,4)])
qed

lemma parse_pressed:
  "parse_callback_data checksum_hmac [1, 2, 3] (callback_chat pressed) (callback_data pressed)
     = Inr ([97, 97, 97, 97, 97, 97, 97, 97], None)"
  by (simp add: pressed_def codec_eval)

theorem C6_first_match_witness:
  "parse_callback_data checksum_hmac [1, 2, 3] (callback_chat pressed) (callback_data pressed)
     = Inr ([97, 97, 97, 97, 97, 97, 97, 97], None) \<and>
   call (hook_returning ''A'' (PyBool False) :: bytes Hook) [1, 2, 3] pressed
     [97, 97, 97, 97, 97, 97, 97, 97] None = Inr (PyBool False) \<and>
   call (hook_returning ''B'' (PyBool True) :: bytes Hook) [1, 2, 3] pressed
     [97, 97, 97, 97, 97, 97, 97, 97] None = Inr (PyBool True) \<and>
   calls (process checksum_hmac [1, 2, 3]
            (callbacks_chain [hook_returning ''A'' (PyBool False),
                                hook_returning ''B'' (PyBool True),
                                hook_returning ''C'' (PyBool True)]) pressed) =
     [(''A'', pressed, [97, 97, 97, 97, 97, 97, 97, 97], None),
      (''B'', pressed, [97, 97, 97, 97, 97, 97, 97, 97], None)] \<and>
   raised (process checksum_hmac [1, 2, 3]
            (callbacks_chain [hook_returning ''A'' (PyBool False),
                                hook_returning ''B'' (PyBool True),
                                hook_returning ''C'' (PyBool True)]) pressed) = None"
proof -
  let ?A = "hook_returning ''A'' (PyBool False) :: bytes Hook"
  let ?B = "hook_returning ''B'' (PyBool True) :: bytes Hook"
  let ?C = "hook_returning ''C'' (PyBool True) :: bytes Hook"
  let ?n = "[97, 97, 97, 97, 97, 97, 97, 97] :: bytes"
  have 2: "(callbacks_chain [?A, ?B, ?C]) ''callbacks'' = Some ([?A] @ ?B # [?C])"
    by (simp add: callbacks_chain_def)
  have 3: "\<forall>h \<in> set [?A]. \<exists>v. call h [1, 2, 3] pressed ?n None = Inr v \<and> v \<noteq> PyBool True"
    by (simp add: hook_returning_def)
  have 4: "call ?B [1, 2, 3] pressed ?n None = Inr (PyBool True)"
    by (simp add: hook_returning_def)
  have 5: "call ?A [1, 2, 3] pressed ?n None = Inr (PyBool False)"
    by (simp add: hook_returning_def)
  have 6: "hook_name ?A = ''A''" "hook_name ?B = ''B''"
    by (simp_all add: hook_returning_def)
  show ?thesis
    using parse_pressed 4 5
      C6_first_match [where get_hmac = checksum_hmac and bt = "[1, 2, 3]" and update = pressed
        and the_chains = "(callbacks_chain [?A, ?B, ?C])" and before = "[?A]" and hook = ?B
        and after = "[?C]" and name = ?n and data = None, OF parse_pressed 2 3 4]
    by (simp add: 6)
qed

text \<open>
  C6 as stated fails: a result that is true-equivalent but is not \<open>True\<close> does not stop
  the scan. Hook A returns 1, which is truthy, and hook B is still called.
\<close>

theorem C6_truthy_counterexample:
  "truthy (PyInt 1) \<and>
   call (hook_returning ''A'' (PyInt 1) :: bytes Hook) [1, 2, 3] pressed
     [97, 97, 97, 97, 97, 97, 97, 97] None = Inr (PyInt 1) \<and>
   calls (process checksum_hmac [1, 2, 3]
            (callbacks_chain [hook_returning ''A'' (PyInt 1),
                                hook_returning ''B'' (PyBool True)]) pressed) =
     [(''A'', pressed, [97, 97, 97, 97, 97, 97, 97, 97], None),
      (''B'', pressed, [97, 97, 97, 97, 97, 97, 97, 97], None)]"
  by (simp add: process_def parse_pressed hook_returning_def callbacks_chain_def Let_def)

text \<open>
  C7. When decoding the raw token of an event raises \<open>TamperedMessageError\<close>,
  \<open>process\<close> writes one warning to the log, calls no hook and raises nothing. When
  decoding succeeds and every registered hook returns something other than \<open>True\<close>,
  every hook has been called, nothing is raised, and the last log entry says that no
  hook processed the update.
\<close>

theorem C7_tampered_and_unclaimed:
  "(parse_callback_data get_hmac bt (callback_chat update) (callback_data update)
      = Inl TamperedMessageError \<longrightarrow>
    process get_hmac bt the_chains update =
      \<lparr>logged = [(WARNING, Tampered_skipped (update_id update))], calls = [], raised = None\<rparr>) \<and>
   (parse_callback_data get_hmac bt (callback_chat update) (callback_data update)
      = Inr (name, data) \<and>
    the_chains ''callbacks'' = Some hooks \<and>
    (\<forall>h \<in> set hooks. \<exists>v. call h bt update name data = Inr v \<and> v \<noteq> PyBool True) \<longrightarrow>
    raised (process get_hmac bt the_chains update) = None \<and>
    calls (process get_hmac bt the_chains update) =
      map (\<lambda>h. (hook_name h, update, name, data)) hooks \<and>
    logged (process get_hmac bt the_chains update) =
      map (\<lambda>h. (DEBUG, Processing_with (update_id update) (hook_name h))) hooks
        @ [(DEBUG, No_hook_processed (update_id update))])"
proof (intro conjI impI)
  assume "parse_callback_data get_hmac bt (callback_chat update) (callback_data update)
            = Inl TamperedMessageError"
  then show "process get_hmac bt the_chains update =
      \<lparr>logged = [(WARNING, Tampered_skipped (update_id update))], calls = [], raised = None\<rparr>"
    by (simp add: process_def)
next
  assume a: "parse_callback_data get_hmac bt (callback_chat update) (callback_data update)
      = Inr (name, data) \<and>
    the_chains ''callbacks'' = Some hooks \<and>
    (\<forall>h \<in> set hooks. \<exists>v. call h bt update name data = Inr v \<and> v \<noteq> PyBool True)"
  then have p: "process get_hmac bt the_chains update = run_hooks bt update name data hooks"
    by (simp add: process_def)
  have r: "run_hooks bt update name data hooks =
           \<lparr>logged = map (\<lambda>h. (DEBUG, Processing_with (update_id update) (hook_name h))) hooks
                       @ [(DEBUG, No_hook_processed (update_id update))],
            calls = map (\<lambda>h. (hook_name h, update, name, data)) hooks,
            raised = None\<rparr>"
    using a by (intro run_hooks_unclaimed) simp
  show "raised (process get_hmac bt the_chains update) = None"
    by (simp add: p r)
  show "calls (process get_hmac bt the_chains update) =
      map (\<lambda>h. (hook_name h, update, name, data)) hooks"
    by (simp add: p r)
  show "logged (process get_hmac bt the_chains update) =
      map (\<lambda>h. (DEBUG, Processing_with (update_id update) (hook_name h))) hooks
        @ [(DEBUG, No_hook_processed (update_id update))]"
    by (simp add: p r)
qed

theorem C7_tampered_and_unclaimed_witness:
  "parse_callback_data checksum_hmac [1, 2, 3]
     (callback_chat (pressed\<lparr>callback_chat := \<lparr>chat_id = 2\<rparr>\<rparr>))
     (callback_data (pressed\<lparr>callback_chat := \<lparr>chat_id = 2\<rparr>\<rparr>)) = Inl TamperedMessageError \<and>
   process checksum_hmac [1, 2, 3]
     (callbacks_chain [hook_returning ''A'' (PyBool True)])
     (pressed\<lparr>callback_chat := \<lparr>chat_id = 2\<rparr>\<rparr>) =
     \<lparr>logged = [(WARNING, Tampered_skipped 7)], calls = [], raised = None\<rparr> \<and>
   parse_callback_data checksum_hmac [1, 2, 3] (callback_chat pressed) (callback_data pressed)
     = Inr ([97, 97, 97, 97, 97, 97, 97, 97], None) \<and>
   raised (process checksum_hmac [1, 2, 3]
     (callbacks_chain [hook_returning ''A'' PyNone, hook_returning ''B'' (PyBool False)])
     pressed) = None \<and>
   calls (process checksum_hmac [1, 2, 3]
     (callbacks_chain [hook_returning ''A'' PyNone, hook_returning ''B'' (PyBool False)])
     pressed) =
     [(''A'', pressed, [97, 97, 97, 97, 97, 97, 97, 97], None),
      (''B'', pressed, [97, 97, 97, 97, 97, 97, 97, 97], None)] \<and>
   logged (process checksum_hmac [1, 2, 3]
     (callbacks_chain [hook_returning ''A'' PyNone, hook_returning ''B'' (PyBool False)])
     pressed) =
     [(DEBUG, Processing_with 7 ''A''), (DEBUG, Processing_with 7 ''B''),
      (DEBUG, No_hook_processed 7)]"
proof -
  let ?A = "hook_returning ''A'' PyNone :: bytes Hook"
  let ?B = "hook_returning ''B'' (PyBool False) :: bytes Hook"
  let ?T = "hook_returning ''A'' (PyBool True) :: bytes Hook"
  let ?n = "[97, 97, 97, 97, 97, 97, 97, 97] :: bytes"
  let ?u = "pressed\<lparr>callback_chat := \<lparr>chat_id = 2\<rparr>\<rparr>"
  have 1: "parse_callback_data checksum_hmac [1, 2, 3] (callback_chat ?u) (callback_data ?u)
             = Inl TamperedMessageError"
    by (simp add: pressed_def codec_eval)
  have 2: "process checksum_hmac [1, 2, 3] (callbacks_chain [?T]) ?u =
             \<lparr>logged = [(WARNING, Tampered_skipped (update_id ?u))], calls = [], raised = None\<rparr>"
    using C7_tampered_and_unclaimed [where get_hmac = checksum_hmac and bt = "[1, 2, 3]"
        and update = ?u and the_chains = "(callbacks_chain [?T])"] 1
    by blast
  have 3: "(callbacks_chain [?A, ?B]) ''callbacks'' = Some [?A, ?B]"
    by (simp add: callbacks_chain_def)
  have 4: "\<forall>h \<in> set [?A, ?B]. \<exists>v. call h [1, 2, 3] pressed ?n None = Inr v \<and> v \<noteq> PyBool True"
    by (simp add: hook_returning_def)
  have 5: "raised (process checksum_hmac [1, 2, 3] (callbacks_chain [?A, ?B]) pressed) = None \<and>
    calls (process checksum_hmac [1, 2, 3] (callbacks_chain [?A, ?B]) pressed) =
      map (\<lambda>h. (hook_name h, pressed, ?n, None)) [?A, ?B] \<and>
    logged (process checksum_hmac [1, 2, 3] (callbacks_chain [?A, ?B]) pressed) =
      map (\<lambda>h. (DEBUG, Processing_with (update_id pressed) (hook_name h))) [?A, ?B]
        @ [(DEBUG, No_hook_processed (update_id pressed))]"
    using C7_tampered_and_unclaimed [where get_hmac = checksum_hmac and bt = "[1, 2, 3]"
        and update = pressed and the_chains = "(callbacks_chain [?A, ?B])"
        and hooks = "[?A, ?B]" and name = ?n and data = None] parse_pressed 3 4
    by blast
  have 6: "update_id ?u = 7" "update_id pressed = 7" "hook_name ?A = ''A''" "hook_name ?B = ''B''"
    by (simp_all add: pressed_def hook_returning_def)
  show ?thesis
    using 1 2 5 parse_pressed by (simp add: 6)
qed

section \<open>Claims about the keyboard\<close>

lemma keys_getitem: "fst ` set (rows (getitem kb i)) = insert i (fst ` set (rows kb))"
  by (auto simp: getitem_def)

lemma distinct_getitem:
  "distinct (map fst (rows kb)) \<Longrightarrow> distinct (map fst (rows (getitem kb i)))"
  by (auto simp: getitem_def)

lemma map_fst_on_row: "map fst (rows (on_row kb i m)) = map fst (rows (getitem kb i))"
  by (simp add: on_row_def Let_def case_prod_unfold comp_def if_distrib cong: if_cong)

lemma keys_perform:
  "fst ` set (rows (perform kb st)) = insert (row_index st) (fst ` set (rows kb))"
proof -
  have "fst ` set (rows (on_row kb i m)) = insert i (fst ` set (rows kb))" for i m
    using map_fst_on_row [of kb i m] keys_getitem [of kb i]
    by (metis list.set_map)
  then show ?thesis
    by (cases st) (simp_all add: keys_getitem)
qed

lemma distinct_perform:
  "distinct (map fst (rows kb)) \<Longrightarrow> distinct (map fst (rows (perform kb st)))"
  by (cases st) (simp_all add: map_fst_on_row distinct_getitem)

lemma build_invariant:
  "distinct (map fst (rows kb)) \<Longrightarrow>
     distinct (map fst (rows (foldl perform kb sts))) \<and>
     fst ` set (rows (foldl perform kb sts)) = fst ` set (rows kb) \<union> set (map row_index sts)"
proof (induction sts arbitrary: kb)
  case Nil
  then show ?case by simp
next
  case (Cons st sts)
  have "distinct (map fst (rows (perform kb st)))"
    using Cons.prems by (rule distinct_perform)
  from Cons.IH [OF this] show ?case
    by (auto simp: keys_perform)
qed

lemma distinct_map_insort_key:
  "distinct (map f (insort_key f x xs)) \<longleftrightarrow> f x \<notin> f ` set xs \<and> distinct (map f xs)"
  by (induction xs) (auto simp: set_insort_key)

lemma distinct_map_sort_key: "distinct (map f (sort_key f xs)) \<longleftrightarrow> distinct (map f xs)"
  by (induction xs) (simp_all add: distinct_map_insort_key)

lemma map_fst_sort_key:
  fixes xs :: "(int \<times> 'a) list"
  assumes "distinct (map fst xs)"
  shows "map fst (sort_key fst xs) = sorted_list_of_set (fst ` set xs)"
proof (rule sorted_distinct_set_unique)
  show "sorted (map fst (sort_key fst xs))"
    by simp
  show "distinct (map fst (sort_key fst xs))"
    using assms by (simp add: distinct_map_sort_key)
  show "sorted (sorted_list_of_set (fst ` set xs))" "distinct (sorted_list_of_set (fst ` set xs))"
    by simp_all
  show "set (map fst (sort_key fst xs)) = set (sorted_list_of_set (fst ` set xs))"
    by simp
qed

lemma map_snd_by_key:
  assumes "distinct (map fst xs)" and "set ys \<subseteq> set xs"
  shows "map snd ys = map (\<lambda>i. the (map_of xs i)) (map fst ys)"
  using assms(2)
proof (induction ys)
  case Nil
  show ?case by simp
next
  case (Cons y ys)
  then have "(fst y, snd y) \<in> set xs"
    by simp
  then have "map_of xs (fst y) = Some (snd y)"
    using assms(1) by simp
  with Cons show ?case
    by simp
qed

lemma sorted_rows:
  assumes "distinct (map fst (rows kb))"
  shows "map snd (sort_key fst (rows kb)) =
           map (\<lambda>i. the (map_of (rows kb) i)) (sorted_list_of_set (fst ` set (rows kb)))"
proof -
  have "map snd (sort_key fst (rows kb)) =
          map (\<lambda>i. the (map_of (rows kb) i)) (map fst (sort_key fst (rows kb)))"
    using assms by (rule map_snd_by_key) simp
  then show ?thesis
    using assms by (simp only: map_fst_sort_key)
qed

lemma length_rows_content:
  "rows_content DIGEST get_hmac c rs = Inr out \<Longrightarrow> length out = length rs"
proof (induction rs arbitrary: out)
  case Nil
  then show ?case by simp
next
  case (Cons r rs)
  then show ?case
    by (auto simp: bind_eq_Inr)
qed

text \<open>
  C8. For every keyboard built by any sequence of statements, serialization emits the
  rows stored under the indices that were accessed, each once, in ascending order of
  the index, whatever the order of access: the emitted list is the list of the rows
  at the sorted indices, so an index never accessed gives no row, and a successful
  serialization has as many rows as there are accessed indices.
\<close>

theorem C8_serialization_order:
  "serialize_attachment DIGEST get_hmac c (build statements) =
     bind (rows_content DIGEST get_hmac c
             (map (\<lambda>i. the (map_of (rows (build statements)) i))
                  (sorted_list_of_set (set (map row_index statements)))))
       (\<lambda>rows. Inr [(''inline_keyboard'', rows)]) \<and>
   fst ` set (rows (build statements)) = set (map row_index statements) \<and>
   (\<forall>out. serialize_attachment DIGEST get_hmac c (build statements)
            = Inr [(''inline_keyboard'', out)] \<longrightarrow>
      length out = card (set (map row_index statements)))"
proof -
  have inv: "distinct (map fst (rows (build statements)))"
    and keys: "fst ` set (rows (build statements)) = set (map row_index statements)"
    using build_invariant [of buttons statements] by (simp_all add: build_def buttons_def)
  have ser: "serialize_attachment DIGEST get_hmac c (build statements) =
     bind (rows_content DIGEST get_hmac c
             (map (\<lambda>i. the (map_of (rows (build statements)) i))
                  (sorted_list_of_set (set (map row_index statements)))))
       (\<lambda>rows. Inr [(''inline_keyboard'', rows)])"
    unfolding serialize_attachment_def sorted_rows [OF inv] keys ..
  have "length out = card (set (map row_index statements))"
    if "serialize_attachment DIGEST get_hmac c (build statements) = Inr [(''inline_keyboard'', out)]"
    for out
  proof -
    from that have "rows_content DIGEST get_hmac c
             (map (\<lambda>i. the (map_of (rows (build statements)) i))
                  (sorted_list_of_set (set (map row_index statements)))) = Inr out"
      unfolding ser by (auto simp: bind_eq_Inr)
    then have "length out = length (sorted_list_of_set (set (map row_index statements)))"
      by (auto dest: length_rows_content)
    then show ?thesis
      by simp
  qed
  with ser keys show ?thesis
    by blast
qed

lemmas keyboard_eval =
  serialize_attachment_def build_def buttons_def on_row_def getitem_def url_def
  ButtonsRow_init_def Let_def

theorem C8_serialization_order_witness:
  "map fst (rows (build [Url 2 [0x63] [0x7A], Url 0 [0x61] [0x78], Url 1 [0x62] [0x79]]))
     = [2, 0, 1] \<and>
   serialize_attachment checksum_digest checksum_hmac
       \<lparr>component_name = [], ctx_bot = [1, 2, 3], ctx_chat = \<lparr>chat_id = 1\<rparr>\<rparr>
       (build [Url 2 [0x63] [0x7A], Url 0 [0x61] [0x78], Url 1 [0x62] [0x79]])
     = Inr [(''inline_keyboard'',
             [[[(''text'', [0x61]), (''url'', [0x78])]],
              [[(''text'', [0x62]), (''url'', [0x79])]],
              [[(''text'', [0x63]), (''url'', [0x7A])]]])] \<and>
   card (set (map row_index [Url 2 [0x63] [0x7A], Url 0 [0x61] [0x78], Url 1 [0x62] [0x79]])) = 3 \<and>
   serialize_attachment checksum_digest checksum_hmac
       \<lparr>component_name = [], ctx_bot = [1, 2, 3], ctx_chat = \<lparr>chat_id = 1\<rparr>\<rparr>
       (build [Url 0 [0x61] [0x78], Url 5 [0x62] [0x79]])
     = Inr [(''inline_keyboard'',
             [[[(''text'', [0x61]), (''url'', [0x78])]],
              [[(''text'', [0x62]), (''url'', [0x79])]]])] \<and>
   card (set (map row_index [Url 0 [0x61] [0x78], Url 5 [0x62] [0x79]])) = 2"
proof -
  let ?c = "\<lparr>component_name = [], ctx_bot = [1, 2, 3], ctx_chat = \<lparr>chat_id = 1\<rparr>\<rparr> :: bytes Ctx"
  let ?s1 = "[Url 2 [0x63] [0x7A], Url 0 [0x61] [0x78], Url 1 [0x62] [0x79]]"
  let ?s2 = "[Url 0 [0x61] [0x78], Url 5 [0x62] [0x79]]"
  let ?o1 = "[[[(''text'', [0x61]), (''url'', [0x78])]],
              [[(''text'', [0x62]), (''url'', [0x79])]],
              [[(''text'', [0x63]), (''url'', [0x7A])]]] :: (string \<times> pystr) list list list"
  let ?o2 = "[[[(''text'', [0x61]), (''url'', [0x78])]],
              [[(''text'', [0x62]), (''url'', [0x79])]]] :: (string \<times> pystr) list list list"
  have 1: "map fst (rows (build ?s1)) = [2, 0, 1]"
    by (simp add: keyboard_eval)
  have 2: "serialize_attachment checksum_digest checksum_hmac ?c (build ?s1)
             = Inr [(''inline_keyboard'', ?o1)]"
    by (simp add: keyboard_eval)
  have 3: "serialize_attachment checksum_digest checksum_hmac ?c (build ?s2)
             = Inr [(''inline_keyboard'', ?o2)]"
    by (simp add: keyboard_eval)
  have "length ?o1 = card (set (map row_index ?s1))"
    using C8_serialization_order [of checksum_digest checksum_hmac ?c ?s1] 2 by blast
  then have 4: "card (set (map row_index ?s1)) = 3"
    by simp
  have "length ?o2 = card (set (map row_index ?s2))"
    using C8_serialization_order [of checksum_digest checksum_hmac ?c ?s2] 3 by blast
  then have 5: "card (set (map row_index ?s2)) = 2"
    by simp
  show ?thesis
    using 1 2 3 4 5 by (intro conjI)
qed

section \<open>Chat binding\<close>







lemma parse_for_another_chat:
  assumes "encode_utf8 name = Inr nb"
    and "length (DIGEST nb) = 16"
    and "is_str (case data of None \<Rightarrow> [] | Some p \<Rightarrow> p)"
    and "encode_utf8 (case data of None \<Rightarrow> [] | Some p \<Rightarrow> p) = Inr d"
    and "length d \<le> 32"
    and "get_callback_data DIGEST get_hmac bt c1 name data = Inr token"
    and "length (get_hmac bt (take 8 (DIGEST nb) @ [0] @ str_int (chat_id c1) @ [0] @ d)) = 16"
  shows "parse_callback_data get_hmac bt c2 token =
           (if get_hmac bt (take 8 (DIGEST nb) @ [0] @ str_int (chat_id c2) @ [0] @ d) =
               get_hmac bt (take 8 (DIGEST nb) @ [0] @ str_int (chat_id c1) @ [0] @ d)
            then Inr (take 8 (DIGEST nb), if data = Some [] then None else data)
            else Inl TamperedMessageError)"
proof -
  let ?h = "take 8 (DIGEST nb)"
  let ?p = "case data of None \<Rightarrow> [] | Some p \<Rightarrow> p"
  let ?m1 = "?h @ [0] @ str_int (chat_id c1) @ [0] @ d"
  let ?m2 = "?h @ [0] @ str_int (chat_id c2) @ [0] @ d"
  let ?sig = "get_hmac bt ?m1"
  let ?B = "b64encode (?sig @ ?h)"
  have "get_callback_data DIGEST get_hmac bt c1 name data = Inr (map unat ?B @ ?p)"
    using get_callback_data_token [OF assms(1,4,3,5), of DIGEST get_hmac bt c1]
    by (simp add: get_signature_def)
  then have token: "token = map unat ?B @ ?p"
    using assms(6) by simp
  have lenB: "length ?B = 32"
    using assms(2,7) by (simp add: length_b64encode_24)
  have enc: "encode_utf8 token = Inr (?B @ d)"
    by (simp add: token encode_utf8_append encode_utf8_ascii [OF ascii_b64encode] assms(4))
  have long: "32 \<le> length (?B @ d)"
    using lenB by simp
  have tk: "take 32 (?B @ d) = ?B" and dr: "drop 32 (?B @ d) = d"
    using lenB by simp_all
  have pre: "b64decode (take 32 (?B @ d)) = Inr (?sig @ ?h)"
    by (simp only: tk b64decode_b64encode)
  have parts: "take 16 (?sig @ ?h) = ?sig" "drop 16 (?sig @ ?h) = ?h"
    using assms(7) by simp_all
  have correct: "get_signature get_hmac bt c2 (drop 16 (?sig @ ?h)) (drop 32 (?B @ d))
                   = get_hmac bt ?m2"
    by (simp only: parts dr) (simp add: get_signature_def)
  show ?thesis
  proof (cases "get_hmac bt ?m2 = ?sig")
    case False
    then have "get_signature get_hmac bt c2 (drop 16 (?sig @ ?h)) (drop 32 (?B @ d))
                 \<noteq> take 16 (?sig @ ?h)"
      unfolding correct parts(1) by simp
    then have "parse_callback_data get_hmac bt c2 token = Inl TamperedMessageError"
      using enc pre long
      by (simp add: parse_callback_data_def Let_def compare_def del: b64encode.simps)
    with False show ?thesis
      by simp
  next
    case True
    then have sg: "get_signature get_hmac bt c2 (drop 16 (?sig @ ?h)) (drop 32 (?B @ d))
                     = take 16 (?sig @ ?h)"
      unfolding correct parts(1) by simp
    have "parse_callback_data get_hmac bt c2 token =
            (if drop 32 (?B @ d) \<noteq> []
             then bind (decode_utf8 (drop 32 (?B @ d))) (\<lambda>x. Inr (drop 16 (?sig @ ?h), Some x))
             else Inr (drop 16 (?sig @ ?h), None))"
      using enc long pre sg by (rule parse_callback_data_bytes)
    then have p: "parse_callback_data get_hmac bt c2 token =
            (if d \<noteq> [] then bind (decode_utf8 d) (\<lambda>x. Inr (?h, Some x)) else Inr (?h, None))"
      by (simp only: dr parts)
    have dec: "decode_utf8 d = Inr ?p"
      using assms(3,4) by (rule decode_encode_utf8)
    have nil: "d = [] \<longleftrightarrow> ?p = []"
      using assms(4) encode_utf8_Nil_iff [of ?p] by auto
    have "parse_callback_data get_hmac bt c2 token =
                 Inr (?h, if data = Some [] then None else data)"
      using p dec nil by (cases data) auto
    with True show ?thesis
      by simp
  qed
qed

lemma digest_collision:
  fixes get_hmac :: "'bot \<Rightarrow> bytes \<Rightarrow> bytes"
  assumes "\<And>m. length (get_hmac bt m) = 16"
  shows "\<exists>i j. i \<noteq> j \<and>
           get_hmac bt (h @ [0] @ str_int i @ [0] @ d) = get_hmac bt (h @ [0] @ str_int j @ [0] @ d)"
proof (rule ccontr)
  let ?f = "\<lambda>i :: int. get_hmac bt (h @ [0] @ str_int i @ [0] @ d)"
  assume "\<not> ?thesis"
  then have "inj ?f"
    by (auto simp: inj_on_def)
  have "finite {xs :: bytes. set xs \<subseteq> UNIV \<and> length xs = 16}"
    by (rule finite_lists_length_eq) simp
  moreover have "range ?f \<subseteq> {xs. set xs \<subseteq> UNIV \<and> length xs = 16}"
    using assms by auto
  ultimately have "finite (range ?f)"
    by (rule rev_finite_subset)
  then have "finite (UNIV :: int set)"
    using \<open>inj ?f\<close> by (rule finite_imageD)
  then show False
    by simp
qed

lemma token_accepted_in_another_chat:
  fixes get_hmac :: "'bot \<Rightarrow> bytes \<Rightarrow> bytes"
  assumes "encode_utf8 name = Inr nb"
    and "length (DIGEST nb) = 16"
    and "is_str (case data of None \<Rightarrow> [] | Some p \<Rightarrow> p)"
    and "encode_utf8 (case data of None \<Rightarrow> [] | Some p \<Rightarrow> p) = Inr d"
    and "length d \<le> 32"
    and "\<And>m. length (get_hmac bt m) = 16"
  shows "\<exists>c1 c2 token. c2 \<noteq> c1 \<and>
           get_callback_data DIGEST get_hmac bt c1 name data = Inr token \<and>
           parse_callback_data get_hmac bt c2 token =
             Inr (take 8 (DIGEST nb), if data = Some [] then None else data)"
proof -
  let ?h = "take 8 (DIGEST nb)"
  obtain i j where ij: "i \<noteq> j"
    and eq: "get_hmac bt (?h @ [0] @ str_int i @ [0] @ d) = get_hmac bt (?h @ [0] @ str_int j @ [0] @ d)"
    using digest_collision [of get_hmac bt ?h d] assms(6) by blast
  let ?c1 = "\<lparr>chat_id = j\<rparr>" and ?c2 = "\<lparr>chat_id = i\<rparr>"
  obtain token where token: "get_callback_data DIGEST get_hmac bt ?c1 name data = Inr token"
    using get_callback_data_token [OF assms(1,4,3,5), of DIGEST get_hmac bt ?c1] by blast
  have "parse_callback_data get_hmac bt ?c2 token =
          Inr (?h, if data = Some [] then None else data)"
    using parse_for_another_chat [OF assms(1,2,3,4,5) token, of ?c2] assms(6) eq by simp
  moreover have "?c2 \<noteq> ?c1"
    using ij by simp
  ultimately show ?thesis
    using token by blast
qed




section \<open>The forged strings, for any keyed digest\<close>

text \<open>
  The strings of the counterexamples to C5 and C3 can be written down for every keyed
  digest with 16 bytes of output: nothing in them depends on the digest used above.
\<close>

lemma a2b_start: "a2b_base64 0 l p cs = a2b_base64 0 0 0 cs"
proof (induction cs arbitrary: l p)
  case Nil
  show ?case by simp
next
  case (Cons c cs)
  show ?case
  proof (cases "c = BASE64_PAD")
    case True
    then show ?thesis
      using Cons.IH [of l p] by simp
  next
    case False
    then show ?thesis
      using Cons.IH [of l p] by (cases "table_a2b_base64 c") simp_all
  qed
qed

lemma emit_Inl [simp]: "emit b (Inl e) = Inl e"
  by (simp add: emit_def)

lemma bind_return: "bind m Inr = m"
  by (cases m) simp_all

lemma a2b_b64encode_append:
  "length xs mod 3 = 0 \<Longrightarrow>
     a2b_base64 0 l p (b64encode xs @ rest) = bind (a2b_base64 0 0 0 rest) (\<lambda>r. Inr (xs @ r))"
proof (induction xs arbitrary: l p rule: b64encode.induct)
  case 1
  show ?case
    using a2b_start [of l p rest] by (simp add: bind_return)
next
  case (2 a)
  then show ?case by simp
next
  case (3 a b)
  then show ?case by simp
next
  case (4 a b c r)
  have split: "b64encode (a # b # c # r) @ rest = b64encode [a, b, c] @ (b64encode r @ rest)"
    by simp
  have "length r mod 3 = 0"
    using "4.prems" by simp
  then have IH: "a2b_base64 0 0 0 (b64encode r @ rest) =
                   bind (a2b_base64 0 0 0 rest) (\<lambda>x. Inr (r @ x))"
    by (rule "4.IH")
  show ?case
    unfolding split a2b_group IH
    by (cases "a2b_base64 0 0 0 rest") simp_all
qed


lemma b64decode_skips:
  assumes "length xs mod 3 = 0"
    and "\<forall>c \<in> set junk. c \<noteq> BASE64_PAD \<and> table_a2b_base64 c = None"
  shows "b64decode (b64encode xs @ junk) = Inr xs"
proof -
  have "a2b_base64 0 0 0 junk = Inr []"
    using assms(2) by (induction junk) simp_all
  then show ?thesis
    using assms(1) by (simp add: b64decode_def a2b_b64encode_append)
qed

lemma short_string_accepted:
  assumes sig: "signature = get_hmac bt ([a, b] @ [0] @ str_int (chat_id chat) @ [0] @ [])"
    and len: "length signature = 16"
    and raw: "raw = map unat (b64encode (signature @ [a, b])) @ [0xE9, 0xE9, 0xE9, 0xE9]"
  shows "length raw = 28 \<and> is_str raw \<and>
         parse_callback_data get_hmac bt chat raw = Inr ([a, b], None)"
proof -
  let ?B = "b64encode (signature @ [a, b])"
  let ?junk = "[0xC3, 0xA9, 0xC3, 0xA9, 0xC3, 0xA9, 0xC3, 0xA9] :: bytes"
  have lenB: "length ?B = 24"
    using len by (simp add: length_b64encode)
  have l: "length raw = 28"
    using lenB by (simp add: raw)
  have "is_str (map unat ?B)"
    by (rule is_str_ascii)
  then have s: "is_str raw"
    by (simp add: raw is_str_def)
  have "encode_utf8 [0xE9, 0xE9, 0xE9, 0xE9] = Inr ?junk"
    by (simp add: utf8_char_def)
  then have enc: "encode_utf8 raw = Inr (?B @ ?junk)"
    by (simp only: raw encode_utf8_append encode_utf8_ascii [OF ascii_b64encode]) simp
  have long: "32 \<le> length (?B @ ?junk)"
    using lenB by simp
  have tk: "take 32 (?B @ ?junk) = ?B @ ?junk" and dr: "drop 32 (?B @ ?junk) = []"
    using lenB by simp_all
  have "b64decode (?B @ ?junk) = Inr (signature @ [a, b])"
    using len by (intro b64decode_skips) (simp_all add: table_a2b_base64_def BASE64_PAD_def)
  then have pre: "b64decode (take 32 (?B @ ?junk)) = Inr (signature @ [a, b])"
    by (simp only: tk)
  have sg: "get_signature get_hmac bt chat (drop 16 (signature @ [a, b])) (drop 32 (?B @ ?junk))
              = take 16 (signature @ [a, b])"
    unfolding dr using len sig by (simp add: get_signature_def)
  have "parse_callback_data get_hmac bt chat raw =
          (if drop 32 (?B @ ?junk) \<noteq> []
           then bind (decode_utf8 (drop 32 (?B @ ?junk)))
                  (\<lambda>d. Inr (drop 16 (signature @ [a, b]), Some d))
           else Inr (drop 16 (signature @ [a, b]), None))"
    using enc long pre sg by (rule parse_callback_data_bytes)
  then have "parse_callback_data get_hmac bt chat raw = Inr ([a, b], None)"
    using len by (simp only: dr) simp
  with l s show ?thesis
    by blast
qed

lemma malformed_payload_escapes:
  assumes sig: "signature = get_hmac bt (name @ [0] @ str_int (chat_id chat) @ [0] @ [0xA9])"
    and len: "length signature = 16" and name: "length name = 5"
    and raw: "raw = map unat (b64encode (signature @ name)) @ [0xE9, 0x21, 0xE9]"
  shows "length raw = 31 \<and> is_str raw \<and>
         parse_callback_data get_hmac bt chat raw = Inl UnicodeDecodeError"
proof -
  let ?B = "b64encode (signature @ name)"
  let ?junk = "[0xC3, 0xA9, 0x21, 0xC3] :: bytes"
  have lenB: "length ?B = 28"
    using len name by (simp add: length_b64encode)
  have l: "length raw = 31"
    using lenB by (simp add: raw)
  have "is_str (map unat ?B)"
    by (rule is_str_ascii)
  then have s: "is_str raw"
    by (simp add: raw is_str_def)
  have "encode_utf8 [0xE9, 0x21, 0xE9] = Inr (?junk @ [0xA9])"
    by (simp add: utf8_char_def)
  then have enc: "encode_utf8 raw = Inr (?B @ ?junk @ [0xA9])"
    by (simp only: raw encode_utf8_append encode_utf8_ascii [OF ascii_b64encode]) simp
  have long: "32 \<le> length (?B @ ?junk @ [0xA9])"
    using lenB by simp
  have tk: "take 32 (?B @ ?junk @ [0xA9]) = ?B @ ?junk"
    and dr: "drop 32 (?B @ ?junk @ [0xA9]) = [0xA9]"
    using lenB by simp_all
  have "b64decode (?B @ ?junk) = Inr (signature @ name)"
    using len name by (intro b64decode_skips) (simp_all add: table_a2b_base64_def BASE64_PAD_def)
  then have pre: "b64decode (take 32 (?B @ ?junk @ [0xA9])) = Inr (signature @ name)"
    by (simp only: tk)
  have sg: "get_signature get_hmac bt chat (drop 16 (signature @ name))
              (drop 32 (?B @ ?junk @ [0xA9])) = take 16 (signature @ name)"
    unfolding dr using len sig by (simp add: get_signature_def)
  have "parse_callback_data get_hmac bt chat raw =
          (if drop 32 (?B @ ?junk @ [0xA9]) \<noteq> []
           then bind (decode_utf8 (drop 32 (?B @ ?junk @ [0xA9])))
                  (\<lambda>d. Inr (drop 16 (signature @ name), Some d))
           else Inr (drop 16 (signature @ name), None))"
    using enc long pre sg by (rule parse_callback_data_bytes)
  then have "parse_callback_data get_hmac bt chat raw = Inl UnicodeDecodeError"
    by (simp only: dr) simp
  with l s show ?thesis
    by blast
qed

end
